theory Spec2Isabelle
  imports Complex_Main "HOL-Library.AList" "HOL-Library.Multiset" "HOL-Library.Option_ord"
begin

section \<open>Data model\<close>

text \<open>
  The engine of \<^verbatim>\<open>pypoptim/algorythm/ga/ga.py\<close> works on Python objects: solutions
  are compared by identity (\<^verbatim>\<open>parent1 is parent2\<close>), updated in place and deep-copied,
  and the bounds are a float array handed out by copy. Objects therefore live in a store,
  one list per kind of object; an address is an index into its list and allocation
  appends, so an address at or beyond the length of its list is not allocated yet.
  Floats are modelled as reals.
\<close>

type_synonym addr = nat

type_synonym float_array = "(real \<times> real) list"

datatype error =
  TypeError | ValueError | KeyError | AttributeError | AssertionError | IndexError

text \<open>
  Dynamically typed arguments (\<^verbatim>\<open>size\<close>, \<^verbatim>\<open>selection_force\<close>, the argument of
  \<^verbatim>\<open>mutate_population\<close>). \<open>PySol a\<close> is a reference to the solution object at address
  \<open>a\<close>.
\<close>

datatype pyval =
  PyNone | PyBool bool | PyInt int | PyFloat real | PyStr string | PySol addr
  | PyList "pyval list" | PyTuple "pyval list"

text \<open>
  The contents of a payload object: plain data. \<open>DList\<close> stands for the mutable containers
  (lists, dictionaries, arrays), \<open>DTuple\<close> for tuples.
\<close>

datatype pydata =
  DNone | DBool bool | DInt int | DFloat real | DStr string
  | DList "pydata list" | DTuple "pydata list"

text \<open>
  The values that \<^verbatim>\<open>copy.deepcopy\<close> returns as they are, the very same object: the atomic
  ones, and a tuple whose elements all are returned as they are.
\<close>

fun immutable :: "pydata \<Rightarrow> bool" where
  "immutable (DList vs) = False"
| "immutable (DTuple vs) = list_all immutable vs"
| "immutable v = True"

text \<open>\<^verbatim>\<open>isinstance(v, int)\<close>: in Python \<^verbatim>\<open>bool\<close> is a subclass of \<^verbatim>\<open>int\<close>.\<close>

fun is_int :: "pyval \<Rightarrow> bool" where
  "is_int (PyInt n) = True"
| "is_int (PyBool b) = True"
| "is_int v = False"

fun int_of :: "pyval \<Rightarrow> int" where
  "int_of (PyInt n) = n"
| "int_of (PyBool b) = (if b then 1 else 0)"
| "int_of v = 0"

text \<open>
  Modelled from the spec: the class \<^verbatim>\<open>Solution\<close> is not among the sources. A solution
  object holds a gene vector \<^verbatim>\<open>x\<close>, a fitness \<^verbatim>\<open>y\<close> and the payload \<^verbatim>\<open>data\<close>, a
  dictionary from keys to payload objects (addresses of cells); \<^verbatim>\<open>sol[key]\<close> reads and
  writes the payload (sections 3 and 6). Solutions are totally ordered by fitness, lower
  is better: the fitness type \<open>'f\<close> is any linear order, and \<^verbatim>\<open>sol1 < sol2\<close> is
  \<open>sol_y sol1 < sol_y sol2\<close>.
\<close>

record 'f solution =
  sol_x :: "real list"
  sol_y :: 'f
  sol_data :: "(string \<times> addr) list"

record ('f, 'r) state =
  sols :: "'f solution list"
  cells :: "pydata list"
  arrays :: "float_array list"
  rng :: 'r

text \<open>The attributes of a constructed engine (\<^verbatim>\<open>self._bounds\<close> is the address of its array).\<close>

record ga =
  self_bounds :: addr
  self_n_genes :: nat
  self_mask_log10_scale :: "bool list"
  self_gamma_default :: real
  self_gammas :: "real list"
  self_bounds_transformed :: float_array
  self_mutation_rate :: real
  self_crossover_rate :: real
  self_selection_force :: int
  self_keys_data_transmit :: "string list"

text \<open>
  The collaborators that \<^verbatim>\<open>ga.py\<close> imports or receives and that are not part of it: the
  caller's solution class (constructor, \<^verbatim>\<open>update\<close>, \<^verbatim>\<open>is_updated\<close>, \<^verbatim>\<open>is_valid\<close>), the
  helpers of \<^verbatim>\<open>pypoptim.helpers\<close>, the three variation operators and the random
  generator. They are parameters of the model. The variation operators and the gene
  transform are pure functions of their arguments and of the random source (section 2 of
  the specification); \<^verbatim>\<open>sbx_crossover\<close> returns a pair of gene vectors (section 4.3).
\<close>

record ('f, 'r) external =
  SolutionSubclass :: "real list \<Rightarrow> (string \<times> addr) list \<Rightarrow> 'f solution"
  update :: "'f solution \<Rightarrow> 'f solution"
  is_updated :: "'f solution \<Rightarrow> bool"
  is_valid :: "'f solution \<Rightarrow> bool"
  transform_genes_bounds ::
    "real list \<Rightarrow> float_array \<Rightarrow> real list \<Rightarrow> bool list \<Rightarrow> real list \<times> float_array"
  transform_genes_bounds_back ::
    "real list \<Rightarrow> float_array \<Rightarrow> float_array \<Rightarrow> bool list \<Rightarrow> real list"
  random_value_from_bounds :: "real \<times> real \<Rightarrow> 'r \<Rightarrow> real \<times> 'r"
  tournament_selection :: "(addr \<times> 'f solution) list \<Rightarrow> int \<Rightarrow> 'r \<Rightarrow> addr \<times> 'r"
  sbx_crossover ::
    "real list \<Rightarrow> real list \<Rightarrow> float_array \<Rightarrow> real \<Rightarrow> 'r \<Rightarrow> (real list \<times> real list) \<times> 'r"
  cauchy_mutation_population ::
    "'f solution list \<Rightarrow> float_array \<Rightarrow> real \<Rightarrow> real \<Rightarrow> 'r \<Rightarrow> 'f solution list \<times> 'r"
  rng_random :: "'r \<Rightarrow> real \<times> 'r"

text \<open>
  Modelled from the spec: \<^verbatim>\<open>is_values_inside_bounds\<close> of \<^verbatim>\<open>pypoptim.helpers\<close> is not
  among the sources. A gene vector is inside the bounds when every gene lies within its
  \<open>(lower, upper)\<close> pair (section 3), one pair per gene.
\<close>

definition is_values_inside_bounds :: "real list \<Rightarrow> float_array \<Rightarrow> bool" where
  "is_values_inside_bounds values bnds =
     list_all2 (\<lambda>v (lo, hi). lo \<le> v \<and> v \<le> hi) values bnds"

section \<open>Object store\<close>

definition new_solution ::
  "'f solution \<Rightarrow> ('f, 'r) state \<Rightarrow> addr \<times> ('f, 'r) state" where
  "new_solution s st = (length (sols st), st\<lparr>sols := sols st @ [s]\<rparr>)"

fun new_solutions ::
  "'f solution list \<Rightarrow> ('f, 'r) state \<Rightarrow> addr list \<times> ('f, 'r) state" where
  "new_solutions [] st = ([], st)"
| "new_solutions (s # ss) st =
     (let (a, st1) = new_solution s st; (as, st2) = new_solutions ss st1
      in (a # as, st2))"

text \<open>\<^verbatim>\<open>sol[key] = value\<close> on the solution object at address \<open>a\<close>.\<close>

definition setitem ::
  "addr \<Rightarrow> string \<Rightarrow> addr \<Rightarrow> ('f, 'r) state \<Rightarrow> ('f, 'r) state" where
  "setitem a key c st =
     st\<lparr>sols := (sols st)[a := (sols st ! a)\<lparr>sol_data := AList.update key c (sol_data (sols st ! a))\<rparr>]\<rparr>"

text \<open>
  \<^verbatim>\<open>copy.deepcopy\<close> of a payload object: the object itself when its value is immutable,
  else a new cell with the same contents. For a whole solution the payload dictionary is
  copied entry by entry; as in Python, the copy keeps a memo of the objects it made a new
  copy of, so two keys that share a mutable object share its copy.
\<close>

definition deepcopy_value :: "addr \<Rightarrow> ('f, 'r) state \<Rightarrow> addr \<times> ('f, 'r) state" where
  "deepcopy_value c st =
     (if immutable (cells st ! c) then (c, st)
      else (length (cells st), st\<lparr>cells := cells st @ [cells st ! c]\<rparr>))"

fun deepcopy_data ::
  "(addr \<times> addr) list \<Rightarrow> (string \<times> addr) list \<Rightarrow> ('f, 'r) state
   \<Rightarrow> (string \<times> addr) list \<times> ('f, 'r) state" where
  "deepcopy_data memo [] st = ([], st)"
| "deepcopy_data memo ((k, c) # kvs) st =
     (case map_of memo c of
        Some c' \<Rightarrow>
          (let (r, st1) = deepcopy_data memo kvs st in ((k, c') # r, st1))
      | None \<Rightarrow>
          (let (c', st1) = deepcopy_value c st;
               (r, st2) = deepcopy_data
                            (if immutable (cells st ! c) then memo else (c, c') # memo) kvs st1
           in ((k, c') # r, st2)))"

definition deepcopy_solution :: "addr \<Rightarrow> ('f, 'r) state \<Rightarrow> addr \<times> ('f, 'r) state" where
  "deepcopy_solution a st =
     (let s = sols st ! a; (d, st1) = deepcopy_data [] (sol_data s) st
      in new_solution (s\<lparr>sol_data := d\<rparr>) st1)"

section \<open>Construction: \<^verbatim>\<open>GA.__init__\<close>\<close>

text \<open>
  The arguments of the constructor. \<open>arg_bounds\<close> is the nested sequence handed to
  \<^verbatim>\<open>np.asfarray\<close>; in \<open>arg_gammas\<close> an entry \<open>None\<close> is a NaN; \<open>None\<close> for a whole
  argument is Python's \<^verbatim>\<open>None\<close> (the default). \<open>arg_SolutionSubclass_ok\<close> is the outcome
  of the class test \<^verbatim>\<open>issubclass(C, Solution) and not isinstance(C, Solution)\<close>. The key
  list and the generator are typed, so their \<^verbatim>\<open>isinstance\<close> tests always pass.
\<close>

record 'r init_args =
  arg_SolutionSubclass_ok :: bool
  arg_bounds :: "real list list"
  arg_gammas :: "real option list option"
  arg_gamma_default :: "real option"
  arg_mask_log10_scale :: "bool list option"
  arg_mutation_rate :: real
  arg_crossover_rate :: real
  arg_selection_force :: pyval
  arg_keys_data_transmit :: "string list option"
  arg_rng :: "'r option"

definition check_bounds :: "real list list \<Rightarrow> error + float_array" where
  "check_bounds rows =
     (if rows = [] \<or> list_ex (\<lambda>row. length row \<noteq> 2) rows then Inl ValueError
      else let bnds = map (\<lambda>row. (row ! 0, row ! 1)) rows
           in if list_ex (\<lambda>(lo, hi). lo \<ge> hi) bnds then Inl ValueError else Inr bnds)"

definition check_mask :: "float_array \<Rightarrow> bool list option \<Rightarrow> error + bool list" where
  "check_mask bnds mask_log10_scale =
     (case mask_log10_scale of
        None \<Rightarrow> Inr (replicate (length bnds) False)
      | Some msk \<Rightarrow>
          if length msk \<noteq> length bnds then Inl ValueError
          else if list_ex (\<lambda>(m, (lo, hi)). m \<and> lo \<le> 0) (zip msk bnds) then Inl ValueError
          else Inr msk)"

definition check_gamma_default :: "real option \<Rightarrow> error + real" where
  "check_gamma_default gamma_default =
     (case gamma_default of
        None \<Rightarrow> Inr 1
      | Some g \<Rightarrow> if g \<le> 0 then Inl ValueError else Inr g)"

definition check_gammas :: "nat \<Rightarrow> real \<Rightarrow> real option list option \<Rightarrow> error + real list" where
  "check_gammas n_genes gamma_default gammas =
     (case gammas of
        None \<Rightarrow> Inr (replicate n_genes gamma_default)
      | Some gs \<Rightarrow>
          if length gs \<noteq> n_genes then Inl ValueError
          else if list_ex (\<lambda>g. case g of None \<Rightarrow> False | Some v \<Rightarrow> v \<le> 0) gs
          then Inl ValueError
          else Inr (map (\<lambda>g. case g of None \<Rightarrow> gamma_default | Some v \<Rightarrow> v) gs))"

definition check_rates :: "'r init_args \<Rightarrow> error + int" where
  "check_rates a =
     (if \<not> (0 \<le> arg_mutation_rate a \<and> arg_mutation_rate a \<le> 1) then Inl ValueError
      else if \<not> (0 \<le> arg_crossover_rate a \<and> arg_crossover_rate a \<le> 1) then Inl ValueError
      else if \<not> is_int (arg_selection_force a) then Inl TypeError
      else if int_of (arg_selection_force a) < 2 then Inl ValueError
      else Inr (int_of (arg_selection_force a)))"

definition GA_init ::
  "('f, 'r) external \<Rightarrow> 'r init_args \<Rightarrow> ('f, 'r) state \<Rightarrow> error + (ga \<times> ('f, 'r) state)" where
  "GA_init ext a st =
     (if \<not> arg_SolutionSubclass_ok a then Inl TypeError
      else case check_bounds (arg_bounds a) of Inl e \<Rightarrow> Inl e | Inr bnds \<Rightarrow>
      (case check_mask bnds (arg_mask_log10_scale a) of Inl e \<Rightarrow> Inl e | Inr msk \<Rightarrow>
      (case check_gamma_default (arg_gamma_default a) of Inl e \<Rightarrow> Inl e | Inr gamma_default \<Rightarrow>
      (case check_gammas (length bnds) gamma_default (arg_gammas a) of Inl e \<Rightarrow> Inl e | Inr gammas \<Rightarrow>
      (let bt = snd (transform_genes_bounds ext (map fst bnds) bnds gammas msk)
       in case check_rates a of Inl e \<Rightarrow> Inl e | Inr force \<Rightarrow>
         Inr (\<lparr>self_bounds = length (arrays st),
               self_n_genes = length bnds,
               self_mask_log10_scale = msk,
               self_gamma_default = gamma_default,
               self_gammas = gammas,
               self_bounds_transformed = bt,
               self_mutation_rate = arg_mutation_rate a,
               self_crossover_rate = arg_crossover_rate a,
               self_selection_force = force,
               self_keys_data_transmit =
                 (case arg_keys_data_transmit a of None \<Rightarrow> [] | Some ks \<Rightarrow> ks)\<rparr>,
              st\<lparr>arrays := arrays st @ [bnds],
                 rng := (case arg_rng a of None \<Rightarrow> rng st | Some r \<Rightarrow> r)\<rparr>))))))"

text \<open>The property \<^verbatim>\<open>bounds\<close>: \<^verbatim>\<open>self._bounds.copy()\<close>, a new array with the same rows.\<close>

definition bounds :: "ga \<Rightarrow> ('f, 'r) state \<Rightarrow> addr \<times> ('f, 'r) state" where
  "bounds ga st = (length (arrays st), st\<lparr>arrays := arrays st @ [arrays st ! self_bounds ga]\<rparr>)"

text \<open>
  What a caller can do with an array it holds: \<^verbatim>\<open>arr[i] = row\<close> (beyond the last row
  numpy raises IndexError and the array is unchanged).
\<close>

definition array_setitem ::
  "addr \<Rightarrow> nat \<Rightarrow> real \<times> real \<Rightarrow> ('f, 'r) state \<Rightarrow> ('f, 'r) state" where
  "array_setitem a i row st = st\<lparr>arrays := (arrays st)[a := (arrays st ! a)[i := row]]\<rparr>"

section \<open>Gene transform\<close>

text \<open>\<^verbatim>\<open>np.allclose\<close> with its default tolerances \<open>rtol = 1e-5\<close>, \<open>atol = 1e-8\<close>.\<close>

definition isclose :: "real \<Rightarrow> real \<Rightarrow> bool" where
  "isclose a b = (\<bar>a - b\<bar> \<le> 1 / 10 ^ 8 + (1 / 10 ^ 5) * \<bar>b\<bar>)"

definition allclose :: "float_array \<Rightarrow> float_array \<Rightarrow> bool" where
  "allclose a b = list_all2 (\<lambda>(a1, a2) (b1, b2). isclose a1 b1 \<and> isclose a2 b2) a b"

definition transform_genes ::
  "('f, 'r) external \<Rightarrow> ga \<Rightarrow> real list \<Rightarrow> ('f, 'r) state \<Rightarrow> error + real list" where
  "transform_genes ext ga genes st =
     (let (genes_transformed, bounds_transformed) =
            transform_genes_bounds ext genes (arrays st ! self_bounds ga)
              (self_gammas ga) (self_mask_log10_scale ga)
      in if allclose bounds_transformed (self_bounds_transformed ga)
         then Inr genes_transformed else Inl AssertionError)"

definition transform_genes_back ::
  "('f, 'r) external \<Rightarrow> ga \<Rightarrow> real list \<Rightarrow> ('f, 'r) state \<Rightarrow> real list" where
  "transform_genes_back ext ga genes_transformed st =
     transform_genes_bounds_back ext genes_transformed (self_bounds_transformed ga)
       (arrays st ! self_bounds ga) (self_mask_log10_scale ga)"

definition transform_solution ::
  "('f, 'r) external \<Rightarrow> ga \<Rightarrow> addr \<Rightarrow> ('f, 'r) state \<Rightarrow> error + (addr \<times> ('f, 'r) state)" where
  "transform_solution ext ga sol st =
     (case transform_genes ext ga (sol_x (sols st ! sol)) st of
        Inl e \<Rightarrow> Inl e
      | Inr genes_transformed \<Rightarrow>
          Inr (new_solution
                ((SolutionSubclass ext genes_transformed (sol_data (sols st ! sol)))
                   \<lparr>sol_y := sol_y (sols st ! sol)\<rparr>) st))"

definition transform_solution_back ::
  "('f, 'r) external \<Rightarrow> ga \<Rightarrow> addr \<Rightarrow> ('f, 'r) state \<Rightarrow> addr \<times> ('f, 'r) state" where
  "transform_solution_back ext ga sol_transformed st =
     new_solution
       ((SolutionSubclass ext (transform_genes_back ext ga (sol_x (sols st ! sol_transformed)) st)
           (sol_data (sols st ! sol_transformed)))
          \<lparr>sol_y := sol_y (sols st ! sol_transformed)\<rparr>) st"

text \<open>
  \<^verbatim>\<open>_transform_population\<close> iterates over whatever it is given; reading \<^verbatim>\<open>sol.x\<close> of an
  element that is not a solution raises AttributeError.
\<close>

fun transform_population ::
  "('f, 'r) external \<Rightarrow> ga \<Rightarrow> pyval list \<Rightarrow> ('f, 'r) state
   \<Rightarrow> error + (addr list \<times> ('f, 'r) state)" where
  "transform_population ext ga [] st = Inr ([], st)"
| "transform_population ext ga (v # vs) st =
     (case v of
        PySol sol \<Rightarrow>
          (case transform_solution ext ga sol st of
             Inl e \<Rightarrow> Inl e
           | Inr (t, st1) \<Rightarrow>
               (case transform_population ext ga vs st1 of
                  Inl e \<Rightarrow> Inl e
                | Inr (ts, st2) \<Rightarrow> Inr (t # ts, st2)))
      | _ \<Rightarrow> Inl AttributeError)"

fun transform_population_back ::
  "('f, 'r) external \<Rightarrow> ga \<Rightarrow> addr list \<Rightarrow> ('f, 'r) state \<Rightarrow> addr list \<times> ('f, 'r) state" where
  "transform_population_back ext ga [] st = ([], st)"
| "transform_population_back ext ga (sol # rest) st =
     (let (s, st1) = transform_solution_back ext ga sol st;
          (ss, st2) = transform_population_back ext ga rest st1
      in (s # ss, st2))"

section \<open>Population operations\<close>

fun draw_genes ::
  "('f, 'r) external \<Rightarrow> float_array \<Rightarrow> nat list \<Rightarrow> 'r \<Rightarrow> error + (real list \<times> 'r)" where
  "draw_genes ext bt [] r = Inr ([], r)"
| "draw_genes ext bt (i # rest) r =
     (if i < length bt then
        (let (v, r1) = random_value_from_bounds ext (bt ! i) r
         in case draw_genes ext bt rest r1 of
              Inl e \<Rightarrow> Inl e
            | Inr (vs, r2) \<Rightarrow> Inr (v # vs, r2))
      else Inl IndexError)"

definition generate_solution ::
  "('f, 'r) external \<Rightarrow> ga \<Rightarrow> ('f, 'r) state \<Rightarrow> error + (addr \<times> ('f, 'r) state)" where
  "generate_solution ext ga st =
     (case draw_genes ext (self_bounds_transformed ga) [0..<self_n_genes ga] (rng st) of
        Inl e \<Rightarrow> Inl e
      | Inr (genes_transformed, r) \<Rightarrow>
          (let st1 = st\<lparr>rng := r\<rparr>;
               genes = transform_genes_back ext ga genes_transformed st1
           in Inr (new_solution (SolutionSubclass ext genes []) st1)))"

fun generate_population ::
  "('f, 'r) external \<Rightarrow> ga \<Rightarrow> nat \<Rightarrow> ('f, 'r) state \<Rightarrow> error + (addr list \<times> ('f, 'r) state)" where
  "generate_population ext ga 0 st = Inr ([], st)"
| "generate_population ext ga (Suc n) st =
     (case generate_solution ext ga st of
        Inl e \<Rightarrow> Inl e
      | Inr (s, st1) \<Rightarrow>
          (case generate_population ext ga n st1 of
             Inl e \<Rightarrow> Inl e
           | Inr (ss, st2) \<Rightarrow> Inr (s # ss, st2)))"

text \<open>
  \<^verbatim>\<open>cauchy_mutation_population\<close> reads the solutions it is given and returns solutions;
  the engine only ever hands it temporaries (transformed copies and fresh children) and
  uses the result through \<^verbatim>\<open>_transform_population_back\<close>, so the returned solutions are
  stored as new objects.
\<close>

definition mutate_population_transformed ::
  "('f, 'r) external \<Rightarrow> ga \<Rightarrow> addr list \<Rightarrow> ('f, 'r) state \<Rightarrow> addr list \<times> ('f, 'r) state" where
  "mutate_population_transformed ext ga population st =
     (let (new_population, r) =
            cauchy_mutation_population ext (map (\<lambda>a. sols st ! a) population)
              (self_bounds_transformed ga) (self_gamma_default ga) (self_mutation_rate ga) (rng st)
      in new_solutions new_population (st\<lparr>rng := r\<rparr>))"

text \<open>
  \<^verbatim>\<open>isinstance(population, (list, int))\<close>, and Python's iteration protocol: a list or a
  tuple yields its elements, a string its characters; the other values are not iterable
  (TypeError).
\<close>

fun isinstance_list_int :: "pyval \<Rightarrow> bool" where
  "isinstance_list_int (PyList vs) = True"
| "isinstance_list_int v = is_int v"

fun iterate :: "pyval \<Rightarrow> error + pyval list" where
  "iterate (PyList vs) = Inr vs"
| "iterate (PyTuple vs) = Inr vs"
| "iterate (PyStr cs) = Inr (map (\<lambda>c. PyStr [c]) cs)"
| "iterate v = Inl TypeError"

definition mutate_population ::
  "('f, 'r) external \<Rightarrow> ga \<Rightarrow> pyval \<Rightarrow> ('f, 'r) state \<Rightarrow> error + (addr list \<times> ('f, 'r) state)" where
  "mutate_population ext ga population st =
     (if \<not> isinstance_list_int population then Inl TypeError
      else case iterate population of
        Inl e \<Rightarrow> Inl e
      | Inr elems \<Rightarrow>
          (case transform_population ext ga elems st of
             Inl e \<Rightarrow> Inl e
           | Inr (population_new, st1) \<Rightarrow>
               (let (population_new, st2) = mutate_population_transformed ext ga population_new st1
                in Inr (transform_population_back ext ga population_new st2))))"

definition mutate_solution ::
  "('f, 'r) external \<Rightarrow> ga \<Rightarrow> pyval \<Rightarrow> ('f, 'r) state \<Rightarrow> error + (addr \<times> ('f, 'r) state)" where
  "mutate_solution ext ga sol st =
     (case sol of
        PySol a \<Rightarrow>
          (case mutate_population ext ga (PyList [sol]) st of
             Inl e \<Rightarrow> Inl e
           | Inr (population_mutated, st1) \<Rightarrow>
               if length population_mutated = 1 then Inr (population_mutated ! 0, st1)
               else Inl AssertionError)
      | _ \<Rightarrow> Inl TypeError)"

text \<open>
  \<^verbatim>\<open>_transmit_solution_data\<close>: \<^verbatim>\<open>sol_child[key] = copy.deepcopy(sol_parent[key])\<close> for
  each key; reading a key the parent's payload does not hold raises KeyError.
\<close>

fun transmit_solution_data ::
  "string list \<Rightarrow> addr \<Rightarrow> addr \<Rightarrow> ('f, 'r) state \<Rightarrow> error + ('f, 'r) state" where
  "transmit_solution_data [] sol_parent sol_child st = Inr st"
| "transmit_solution_data (key # keys) sol_parent sol_child st =
     (case map_of (sol_data (sols st ! sol_parent)) key of
        None \<Rightarrow> Inl KeyError
      | Some c \<Rightarrow>
          (let (c', st1) = deepcopy_value c st
           in transmit_solution_data keys sol_parent sol_child (setitem sol_child key c' st1)))"

definition selection ::
  "('f, 'r) external \<Rightarrow> ga \<Rightarrow> addr list \<Rightarrow> ('f, 'r) state \<Rightarrow> addr \<times> ('f, 'r) state" where
  "selection ext ga population st =
     (let (winner, r) =
            tournament_selection ext (map (\<lambda>a. (a, sols st ! a)) population)
              (self_selection_force ga) (rng st)
      in (winner, st\<lparr>rng := r\<rparr>))"

definition crossover ::
  "('f, 'r) external \<Rightarrow> ga \<Rightarrow> real list \<Rightarrow> real list \<Rightarrow> ('f, 'r) state
   \<Rightarrow> (real list \<times> real list) \<times> ('f, 'r) state" where
  "crossover ext ga genes1 genes2 st =
     (let (offspring_genes, r) =
            sbx_crossover ext genes1 genes2 (self_bounds_transformed ga)
              (self_crossover_rate ga) (rng st)
      in (offspring_genes, st\<lparr>rng := r\<rparr>))"

subsection \<open>\<^verbatim>\<open>get_mutants\<close>\<close>

text \<open>
  The retry loop \<^verbatim>\<open>while parent1 is parent2\<close>. Nothing bounds the number of rounds, so
  the result is an option: \<open>None\<close> is a loop that never ends.
\<close>

partial_function (option) select_parents ::
  "('f, 'r) external \<Rightarrow> ga \<Rightarrow> addr list \<Rightarrow> addr \<Rightarrow> addr \<Rightarrow> ('f, 'r) state
   \<Rightarrow> ((addr \<times> addr) \<times> ('f, 'r) state) option" where
  "select_parents ext ga population parent1 parent2 st =
     (if parent1 = parent2 then
        (let (p1, st1) = selection ext ga population st;
             (p2, st2) = selection ext ga population st1
         in select_parents ext ga population p1 p2 st2)
      else Some ((parent1, parent2), st))"

declare select_parents.simps [code]

text \<open>\<^verbatim>\<open>min(a, b)\<close> on two solutions: \<open>b\<close> if \<open>b < a\<close>, else \<open>a\<close>.\<close>

definition min_solution :: "('f::linorder, 'r) state \<Rightarrow> addr \<Rightarrow> addr \<Rightarrow> addr" where
  "min_solution st a b = (if sol_y (sols st ! b) < sol_y (sols st ! a) then b else a)"

definition make_child ::
  "('f, 'r) external \<Rightarrow> ga \<Rightarrow> addr \<Rightarrow> real list \<Rightarrow> ('f, 'r) state
   \<Rightarrow> error + (addr \<times> ('f, 'r) state)" where
  "make_child ext ga parent_data_transmitter genes st =
     (let (child, st1) = new_solution (SolutionSubclass ext genes []) st
      in case transmit_solution_data (self_keys_data_transmit ga) parent_data_transmitter child st1 of
           Inl e \<Rightarrow> Inl e
         | Inr st2 \<Rightarrow> Inr (child, st2))"

text \<open>
  Lines 254 to 266: the two children of a pair of transformed parents, by crossover with
  payload transmission or as deep copies.
\<close>

definition offspring ::
  "('f::linorder, 'r) external \<Rightarrow> ga \<Rightarrow> addr \<Rightarrow> addr \<Rightarrow> ('f, 'r) state
   \<Rightarrow> error + (addr list \<times> ('f, 'r) state)" where
  "offspring ext ga parent1_transformed parent2_transformed st =
     (let (u, r) = rng_random ext (rng st); st0 = st\<lparr>rng := r\<rparr>
      in if u \<le> self_crossover_rate ga then
           (let ((genes1, genes2), st1) =
                  crossover ext ga (sol_x (sols st0 ! parent1_transformed))
                    (sol_x (sols st0 ! parent2_transformed)) st0;
                parent_data_transmitter =
                  min_solution st1 parent1_transformed parent2_transformed
            in case make_child ext ga parent_data_transmitter genes1 st1 of
                 Inl e \<Rightarrow> Inl e
               | Inr (child1, st2) \<Rightarrow>
                   (case make_child ext ga parent_data_transmitter genes2 st2 of
                      Inl e \<Rightarrow> Inl e
                    | Inr (child2, st3) \<Rightarrow> Inr ([child1, child2], st3)))
         else
           (let (child1, st1) = deepcopy_solution parent1_transformed st0;
                (child2, st2) = deepcopy_solution parent2_transformed st1
            in Inr ([child1, child2], st2)))"

partial_function (option) mutants_loop ::
  "('f::linorder, 'r) external \<Rightarrow> ga \<Rightarrow> addr list \<Rightarrow> int \<Rightarrow> addr list \<Rightarrow> ('f, 'r) state
   \<Rightarrow> (error + (addr list \<times> ('f, 'r) state)) option" where
  "mutants_loop ext ga population sz population_new st =
     (if int (length population_new) < sz then
        (case select_parents ext ga population (population ! 0) (population ! 0) st of
           None \<Rightarrow> None
         | Some ((parent1, parent2), st1) \<Rightarrow>
             (case transform_solution ext ga parent1 st1 of
                Inl e \<Rightarrow> Some (Inl e)
              | Inr (parent1_transformed, st2) \<Rightarrow>
                  (case transform_solution ext ga parent2 st2 of
                     Inl e \<Rightarrow> Some (Inl e)
                   | Inr (parent2_transformed, st3) \<Rightarrow>
                       (case offspring ext ga parent1_transformed parent2_transformed st3 of
                          Inl e \<Rightarrow> Some (Inl e)
                        | Inr (children, st4) \<Rightarrow>
                            mutants_loop ext ga population sz (population_new @ children) st4))))
      else Some (Inr (population_new, st)))"

declare mutants_loop.simps [code]

definition get_mutants ::
  "('f::linorder, 'r) external \<Rightarrow> ga \<Rightarrow> addr list \<Rightarrow> pyval \<Rightarrow> ('f, 'r) state
   \<Rightarrow> (error + (addr list \<times> ('f, 'r) state)) option" where
  "get_mutants ext ga population sz st =
     (if length population < 3 then Some (Inl ValueError)
      else if \<not> is_int sz then Some (Inl TypeError)
      else if int_of sz < 0 then Some (Inl ValueError)
      else case mutants_loop ext ga population (int_of sz) [] st of
             None \<Rightarrow> None
           | Some (Inl e) \<Rightarrow> Some (Inl e)
           | Some (Inr (population_new, st1)) \<Rightarrow>
               (let (mutated, st2) =
                      mutate_population_transformed ext ga
                        (take (nat (int_of sz)) population_new) st1
                in Some (Inr (transform_population_back ext ga mutated st2))))"

subsection \<open>Elites, update and filter\<close>

text \<open>
  \<^verbatim>\<open>sorted(population)\<close> is a stable sort by the solutions' order, which compares
  fitness; \<open>sort_key\<close> is the stable insertion sort by a key.
\<close>

definition get_elites ::
  "addr list \<Rightarrow> pyval \<Rightarrow> ('f::linorder, 'r) state \<Rightarrow> error + addr list" where
  "get_elites population sz st =
     (if \<not> is_int sz then Inl TypeError
      else if \<not> (0 \<le> int_of sz \<and> int_of sz \<le> int (length population)) then Inl ValueError
      else Inr (take (nat (int_of sz)) (sort_key (\<lambda>a. sol_y (sols st ! a)) population)))"

fun update_population ::
  "('f, 'r) external \<Rightarrow> addr list \<Rightarrow> ('f, 'r) state \<Rightarrow> ('f, 'r) state" where
  "update_population ext [] st = st"
| "update_population ext (sol # rest) st =
     update_population ext rest (st\<lparr>sols := (sols st)[sol := update ext (sols st ! sol)]\<rparr>)"

definition is_solution_inside_bounds ::
  "ga \<Rightarrow> addr \<Rightarrow> float_array option \<Rightarrow> ('f, 'r) state \<Rightarrow> bool" where
  "is_solution_inside_bounds ga sol bnds st =
     is_values_inside_bounds (sol_x (sols st ! sol))
       (case bnds of None \<Rightarrow> arrays st ! self_bounds ga | Some b \<Rightarrow> b)"

text \<open>
  The loop of \<^verbatim>\<open>filter_population\<close>, with \<open>population_filtered\<close> as accumulator; each
  \<^verbatim>\<open>continue\<close> goes on with the rest and an unchanged accumulator. The debug log lines are
  left out.
\<close>

fun filter_loop ::
  "('f, 'r) external \<Rightarrow> ga \<Rightarrow> ('f, 'r) state \<Rightarrow> addr list \<Rightarrow> addr list \<Rightarrow> addr list" where
  "filter_loop ext ga st [] population_filtered = population_filtered"
| "filter_loop ext ga st (sol # rest) population_filtered =
     (if \<not> is_updated ext (sols st ! sol) then filter_loop ext ga st rest population_filtered
      else if \<not> is_valid ext (sols st ! sol) then filter_loop ext ga st rest population_filtered
      else if \<not> is_solution_inside_bounds ga sol None st
        then filter_loop ext ga st rest population_filtered
      else filter_loop ext ga st rest (population_filtered @ [sol]))"

definition filter_population ::
  "('f, 'r) external \<Rightarrow> ga \<Rightarrow> addr list \<Rightarrow> ('f, 'r) state \<Rightarrow> addr list" where
  "filter_population ext ga population st = filter_loop ext ga st population []"

subsection \<open>\<^verbatim>\<open>run\<close>\<close>

text \<open>One pass of the loop body of \<^verbatim>\<open>run\<close>, and the loop over \<^verbatim>\<open>range(n_epochs)\<close>.\<close>

definition epoch ::
  "('f::linorder, 'r) external \<Rightarrow> ga \<Rightarrow> int \<Rightarrow> int \<Rightarrow> addr list \<Rightarrow> ('f, 'r) state
   \<Rightarrow> (error + (addr list \<times> ('f, 'r) state)) option" where
  "epoch ext ga n_solutions n_elites population st =
     (let st1 = update_population ext population st;
          survivors = filter_population ext ga population st1
      in case get_elites survivors (PyInt n_elites) st1 of
           Inl e \<Rightarrow> Some (Inl e)
         | Inr elites \<Rightarrow>
             (case get_mutants ext ga survivors (PyInt (n_solutions - n_elites)) st1 of
                None \<Rightarrow> None
              | Some (Inl e) \<Rightarrow> Some (Inl e)
              | Some (Inr (mutants, st2)) \<Rightarrow> Some (Inr (elites @ mutants, st2))))"

fun epochs ::
  "('f::linorder, 'r) external \<Rightarrow> ga \<Rightarrow> int \<Rightarrow> int \<Rightarrow> nat \<Rightarrow> addr list \<Rightarrow> ('f, 'r) state
   \<Rightarrow> (error + (addr list \<times> ('f, 'r) state)) option" where
  "epochs ext ga n_solutions n_elites 0 population st = Some (Inr (population, st))"
| "epochs ext ga n_solutions n_elites (Suc i) population st =
     (case epoch ext ga n_solutions n_elites population st of
        None \<Rightarrow> None
      | Some (Inl e) \<Rightarrow> Some (Inl e)
      | Some (Inr (population', st')) \<Rightarrow> epochs ext ga n_solutions n_elites i population' st')"

definition run ::
  "('f::linorder, 'r) external \<Rightarrow> ga \<Rightarrow> pyval \<Rightarrow> pyval \<Rightarrow> pyval \<Rightarrow> ('f, 'r) state
   \<Rightarrow> (error + (addr list \<times> ('f, 'r) state)) option" where
  "run ext ga n_solutions n_epochs n_elites st =
     (if \<not> is_int n_solutions then Some (Inl TypeError)
      else if int_of n_solutions < 0 then Some (Inl ValueError)
      else if \<not> is_int n_epochs then Some (Inl TypeError)
      else if int_of n_epochs < 0 then Some (Inl ValueError)
      else if \<not> is_int n_elites then Some (Inl TypeError)
      else if \<not> (0 \<le> int_of n_elites \<and> int_of n_elites \<le> int_of n_solutions)
        then Some (Inl ValueError)
      else case generate_population ext ga (nat (int_of n_solutions)) st of
             Inl e \<Rightarrow> Some (Inl e)
           | Inr (population, st1) \<Rightarrow>
               epochs ext ga (int_of n_solutions) (int_of n_elites) (nat (int_of n_epochs))
                 population st1)"

section \<open>Store extension\<close>

text \<open>
  \<open>extends st st'\<close>: every solution object and payload cell of \<open>st\<close> is still there,
  unchanged, in \<open>st'\<close>, and the arrays are the same. The operations of the engine only
  allocate, or write to objects they allocated themselves, so the stores they leave extend
  the ones they started from.
\<close>

definition extends :: "('f, 'r) state \<Rightarrow> ('f, 'r) state \<Rightarrow> bool" where
  "extends st st' \<longleftrightarrow>
     length (sols st) \<le> length (sols st')
     \<and> (\<forall>a < length (sols st). sols st' ! a = sols st ! a)
     \<and> length (cells st) \<le> length (cells st')
     \<and> (\<forall>c < length (cells st). cells st' ! c = cells st ! c)
     \<and> arrays st' = arrays st"

section \<open>A concrete instance\<close>

text \<open>
  A small solution class and simple collaborators, used to run the model on concrete
  inputs: the fitness is unset (\<open>None\<close>) until \<open>update\<close> sets it to the sum of the genes,
  the gene transform shifts every gene by its lower bound, the generator is a counter, a
  tournament compares the two candidates at the counter's position and the next one, the
  crossover swaps the parents' genes and the mutation leaves the genes as they are. An
  unset fitness is ordered below every set one (the order of \<open>HOL-Library.Option_ord\<close>).
\<close>

definition SimpleSolution :: "real list \<Rightarrow> (string \<times> addr) list \<Rightarrow> real option solution" where
  "SimpleSolution genes kw = \<lparr>sol_x = genes, sol_y = None, sol_data = kw\<rparr>"

definition shift_genes_bounds ::
  "real list \<Rightarrow> float_array \<Rightarrow> real list \<Rightarrow> bool list \<Rightarrow> real list \<times> float_array" where
  "shift_genes_bounds genes bnds gammas msk =
     (map2 (\<lambda>g (lo, hi). g - lo) genes bnds, map (\<lambda>(lo, hi). (0, hi - lo)) bnds)"

definition shift_genes_bounds_back ::
  "real list \<Rightarrow> float_array \<Rightarrow> float_array \<Rightarrow> bool list \<Rightarrow> real list" where
  "shift_genes_bounds_back genes_transformed bt bnds msk =
     map2 (\<lambda>g (lo, hi). g + lo) genes_transformed bnds"

definition counter_tournament ::
  "(addr \<times> real option solution) list \<Rightarrow> int \<Rightarrow> nat \<Rightarrow> addr \<times> nat" where
  "counter_tournament cands force r =
     (let a = cands ! (r mod length cands); b = cands ! (Suc r mod length cands)
      in (if sol_y (snd b) < sol_y (snd a) then fst b else fst a, Suc r))"

definition ext0 :: "(real option, nat) external" where
  "ext0 =
     \<lparr>SolutionSubclass = SimpleSolution,
      update = (\<lambda>s. s\<lparr>sol_y := Some (sum_list (sol_x s))\<rparr>),
      is_updated = (\<lambda>s. sol_y s \<noteq> None),
      is_valid = (\<lambda>s. True),
      transform_genes_bounds = shift_genes_bounds,
      transform_genes_bounds_back = shift_genes_bounds_back,
      random_value_from_bounds = (\<lambda>(lo, hi) r. (lo + (hi - lo) * real (r mod 4) / 4, Suc r)),
      tournament_selection = counter_tournament,
      sbx_crossover = (\<lambda>genes1 genes2 bt rate r. ((genes2, genes1), Suc r)),
      cauchy_mutation_population = (\<lambda>population bt gamma rate r. (population, Suc r)),
      rng_random = (\<lambda>r. (real (r mod 4) / 4, Suc r))\<rparr>"

definition args0 :: "nat init_args" where
  "args0 =
     \<lparr>arg_SolutionSubclass_ok = True,
      arg_bounds = [[0, 10], [1, 100]],
      arg_gammas = None,
      arg_gamma_default = Some 1,
      arg_mask_log10_scale = Some [False, True],
      arg_mutation_rate = 1,
      arg_crossover_rate = 1 / 2,
      arg_selection_force = PyInt 2,
      arg_keys_data_transmit = Some [''tag''],
      arg_rng = Some 0\<rparr>"

definition ga0 :: ga where
  "ga0 =
     \<lparr>self_bounds = 0,
      self_n_genes = 2,
      self_mask_log10_scale = [False, True],
      self_gamma_default = 1,
      self_gammas = [1, 1],
      self_bounds_transformed = [(0, 10), (0, 99)],
      self_mutation_rate = 1,
      self_crossover_rate = 1 / 2,
      self_selection_force = 2,
      self_keys_data_transmit = [''tag'']\<rparr>"

text \<open>The same engine with no payload key to transmit.\<close>

definition ga1 :: ga where
  "ga1 = ga0\<lparr>self_keys_data_transmit := []\<rparr>"

text \<open>
  A store with the engine's bounds array and three evaluated solutions, each with one
  payload object under the key \<open>''tag''\<close>: a list, a tuple of atomic values, a list.
\<close>

definition st0 :: "(real option, nat) state" where
  "st0 =
     \<lparr>sols =
        [\<lparr>sol_x = [1, 2], sol_y = Some 3, sol_data = [(''tag'', 0)]\<rparr>,
         \<lparr>sol_x = [2, 3], sol_y = Some 5, sol_data = [(''tag'', 1)]\<rparr>,
         \<lparr>sol_x = [3, 4], sol_y = Some 7, sol_data = [(''tag'', 2)]\<rparr>],
      cells = [DList [DStr ''a''], DTuple [DInt 1, DStr ''b''], DList [DStr ''c'']],
      arrays = [[(0, 10), (1, 100)]],
      rng = 0\<rparr>"

definition st_empty :: "(real option, nat) state" where
  "st_empty = \<lparr>sols = [], cells = [], arrays = [], rng = 7\<rparr>"

section \<open>Filtering\<close>

lemma filter_loop_eq:
  "filter_loop ext ga st population acc =
     acc @ filter (\<lambda>sol. is_updated ext (sols st ! sol) \<and> is_valid ext (sols st ! sol)
                      \<and> is_solution_inside_bounds ga sol None st) population"
  by (induction population arbitrary: acc) auto

lemma inside_iff:
  "is_values_inside_bounds values bnds \<longleftrightarrow>
     length values = length bnds \<and>
     (\<forall>i < length values. fst (bnds ! i) \<le> values ! i \<and> values ! i \<le> snd (bnds ! i))"
  by (auto simp: is_values_inside_bounds_def list_all2_conv_all_nth split_beta)

text \<open>
  Claim C5. \<^verbatim>\<open>filter_population\<close> keeps exactly the solutions that are updated, valid and
  inside the raw bounds (every gene within its pair, by \<open>inside_iff\<close>), and drops every
  other one; the survivors come in the order, and with the multiplicity, they had in the
  population.
\<close>

theorem filter_population_survivors:
  "filter_population ext ga population st =
     filter (\<lambda>sol. is_updated ext (sols st ! sol) \<and> is_valid ext (sols st ! sol)
                  \<and> is_values_inside_bounds (sol_x (sols st ! sol)) (arrays st ! self_bounds ga))
       population"
  by (simp add: filter_population_def filter_loop_eq is_solution_inside_bounds_def)

section \<open>Elites\<close>

lemma take_sorted_smallest:
  fixes f :: "'a \<Rightarrow> 'k::linorder"
  assumes "sorted (map f xs)"
  shows "\<forall>a \<in> set (take m xs). \<forall>b \<in> set (drop m xs). f a \<le> f b"
proof -
  have "sorted (map f (take m xs) @ map f (drop m xs))"
    using assms by (simp flip: map_append)
  then show ?thesis by (auto simp: sorted_append)
qed

lemma elites_of_sorted:
  fixes f :: "addr \<Rightarrow> 'k::linorder"
  assumes "m \<le> length population"
  defines "elites \<equiv> take m (sort_key f population)"
  shows "length elites = m"
    and "sorted (map f elites)"
    and "mset elites \<subseteq># mset population"
    and "\<forall>a \<in> set elites. \<forall>b \<in># mset population - mset elites. f a \<le> f b"
proof -
  let ?xs = "sort_key f population"
  show "length elites = m" using assms by (simp add: elites_def)
  show "sorted (map f elites)" 
    unfolding elites_def by (simp add: sorted_wrt_take flip: take_map)
  have split: "mset population = mset elites + mset (drop m ?xs)"
    unfolding elites_def by (metis append_take_drop_id mset_append mset_sort)
  then show "mset elites \<subseteq># mset population" by simp
  from split have "mset population - mset elites = mset (drop m ?xs)" by simp
  moreover have "\<forall>a \<in> set (take m ?xs). \<forall>b \<in> set (drop m ?xs). f a \<le> f b"
    by (rule take_sorted_smallest) simp
  ultimately show "\<forall>a \<in> set elites. \<forall>b \<in># mset population - mset elites. f a \<le> f b"
    by (simp add: elites_def)
qed

text \<open>
  Claim C4. For an integer \<open>m\<close> with \<open>0 \<le> m \<le> len(population)\<close>, \<^verbatim>\<open>get_elites\<close>
  returns \<open>m\<close> solutions of the population (counted with multiplicity), sorted by
  ascending fitness, none of them above any solution it leaves out. An integer outside
  that range raises ValueError and a size that is not an \<^verbatim>\<open>int\<close> raises TypeError.
\<close>

theorem get_elites_smallest:
  fixes st :: "('f::linorder, 'r) state"
  shows
  "(0 \<le> m \<and> m \<le> int (length population) \<longrightarrow>
      (\<exists>elites. get_elites population (PyInt m) st = Inr elites
         \<and> int (length elites) = m
         \<and> sorted (map (\<lambda>a. sol_y (sols st ! a)) elites)
         \<and> mset elites \<subseteq># mset population
         \<and> (\<forall>a \<in> set elites. \<forall>b \<in># mset population - mset elites.
               sol_y (sols st ! a) \<le> sol_y (sols st ! b))))
   \<and> (m' < 0 \<or> int (length population) < m' \<longrightarrow>
        get_elites population (PyInt m') st = Inl ValueError)
   \<and> (\<not> is_int v \<longrightarrow> get_elites population v st = Inl TypeError)"
proof (intro conjI impI)
  assume range: "0 \<le> m \<and> m \<le> int (length population)"
  let ?f = "\<lambda>a. sol_y (sols st ! a)"
  let ?es = "take (nat m) (sort_key ?f population)"
  from range have le: "nat m \<le> length population" by linarith
  have "get_elites population (PyInt m) st = Inr ?es"
    using range by (simp add: get_elites_def)
  moreover have "int (length ?es) = m" using range by auto
  moreover note elites_of_sorted(2-4) [OF le, of ?f]
  ultimately show "\<exists>elites. get_elites population (PyInt m) st = Inr elites
         \<and> int (length elites) = m
         \<and> sorted (map ?f elites)
         \<and> mset elites \<subseteq># mset population
         \<and> (\<forall>a \<in> set elites. \<forall>b \<in># mset population - mset elites. ?f a \<le> ?f b)"
    by blast
next
  assume "m' < 0 \<or> int (length population) < m'"
  then show "get_elites population (PyInt m') st = Inl ValueError"
    by (auto simp: get_elites_def)
next
  assume "\<not> is_int v"
  then show "get_elites population v st = Inl TypeError"
    by (simp add: get_elites_def)
qed

theorem get_elites_smallest_witness:
  "(0::int) \<le> 2 \<and> 2 \<le> int (length [2, 0, 1::nat])
   \<and> (\<exists>elites. get_elites [2, 0, 1] (PyInt 2) st0 = Inr elites
         \<and> int (length elites) = 2
         \<and> sorted (map (\<lambda>a. sol_y (sols st0 ! a)) elites)
         \<and> mset elites \<subseteq># mset [2, 0, 1]
         \<and> (\<forall>a \<in> set elites. \<forall>b \<in># mset [2, 0, 1] - mset elites.
               sol_y (sols st0 ! a) \<le> sol_y (sols st0 ! b)))
   \<and> int (length [2, 0, 1::nat]) < 4
   \<and> get_elites [2, 0, 1] (PyInt 4) st0 = Inl ValueError
   \<and> \<not> is_int (PyFloat 2)
   \<and> get_elites [2, 0, 1] (PyFloat 2) st0 = Inl TypeError"
  using get_elites_smallest [of 2 "[2, 0, 1]" st0 4 "PyFloat 2"] by simp

section \<open>Construction errors\<close>

text \<open>The engine \<open>ga0\<close> is what the constructor builds from \<open>args0\<close>.\<close>

lemma GA_init_args0:
  "GA_init ext0 args0 st_empty = Inr (ga0, st_empty\<lparr>arrays := [[(0, 10), (1, 100)]], rng := 0\<rparr>)"
  by code_simp

lemma check_rates_crossover:
  "arg_crossover_rate a = 3 / 2 \<Longrightarrow> \<exists>e. check_rates a = Inl e"
  by (simp add: check_rates_def)

lemma check_rates_force:
  "arg_selection_force a = PyInt 1 \<Longrightarrow> \<exists>e. check_rates a = Inl e"
  by (simp add: check_rates_def)

lemma GA_init_check_rates:
  "check_rates a = Inl e \<Longrightarrow> \<exists>e'. GA_init ext a st = Inl e'"
  by (simp add: GA_init_def Let_def split: sum.splits)

lemma check_bounds_Inr:
  "check_bounds rows = Inr bnds \<Longrightarrow>
     length bnds = length rows \<and> (\<forall>i < length rows. fst (bnds ! i) = rows ! i ! 0)"
  by (auto simp: check_bounds_def Let_def split: if_splits)

lemma check_mask_nonpositive:
  assumes "i < length msk" "msk ! i" "i < length bnds" "fst (bnds ! i) \<le> 0"
  shows "check_mask bnds (Some msk) = Inl ValueError"
proof (cases "length msk = length bnds")
  case True
  with assms have "(msk ! i, bnds ! i) \<in> set (zip msk bnds)"
    by (metis in_set_zip fst_conv snd_conv)
  with assms have "list_ex (\<lambda>(m, (lo, hi)). m \<and> lo \<le> 0) (zip msk bnds)"
    unfolding list_ex_iff by (force simp: split_beta)
  with True show ?thesis by (simp add: check_mask_def)
next
  case False
  then show ?thesis by (simp add: check_mask_def)
qed

lemma GA_init_mask:
  assumes "arg_mask_log10_scale a = Some msk" "i < length msk" "msk ! i"
    "i < length (arg_bounds a)" "arg_bounds a ! i ! 0 \<le> 0"
  shows "\<exists>e. GA_init ext a st = Inl e"
proof (cases "check_bounds (arg_bounds a)")
  case (Inl e)
  then show ?thesis by (simp add: GA_init_def)
next
  case (Inr bnds)
  from check_bounds_Inr [OF Inr] assms have "i < length bnds" "fst (bnds ! i) \<le> 0" by auto
  with assms have "check_mask bnds (arg_mask_log10_scale a) = Inl ValueError"
    by (simp add: check_mask_nonpositive)
  with Inr show ?thesis by (simp add: GA_init_def)
qed

text \<open>
  Claim C7. Constructing the engine raises an error, and yields no engine, with
  \<^verbatim>\<open>crossover_rate = 1.5\<close>, with \<^verbatim>\<open>selection_force = 1\<close>, and with a log-scale mask that
  marks a gene whose lower bound is not strictly positive, whatever the other arguments
  are.
\<close>

theorem GA_init_rejects:
  "(arg_crossover_rate a1 = 3 / 2 \<longrightarrow> (\<exists>e. GA_init ext a1 st = Inl e))
   \<and> (arg_selection_force a2 = PyInt 1 \<longrightarrow> (\<exists>e. GA_init ext a2 st = Inl e))
   \<and> (arg_mask_log10_scale a3 = Some msk \<and> i < length msk \<and> msk ! i
        \<and> i < length (arg_bounds a3) \<and> arg_bounds a3 ! i ! 0 \<le> 0 \<longrightarrow>
        (\<exists>e. GA_init ext a3 st = Inl e))"
  using check_rates_crossover [of a1] check_rates_force [of a2]
    GA_init_check_rates [of a1 _ ext st] GA_init_check_rates [of a2 _ ext st]
    GA_init_mask [of a3 msk i ext st]
  by blast

theorem GA_init_rejects_witness:
  "arg_crossover_rate (args0\<lparr>arg_crossover_rate := 3 / 2\<rparr>) = 3 / 2
   \<and> (\<exists>e. GA_init ext0 (args0\<lparr>arg_crossover_rate := 3 / 2\<rparr>) st_empty = Inl e)
   \<and> arg_selection_force (args0\<lparr>arg_selection_force := PyInt 1\<rparr>) = PyInt 1
   \<and> (\<exists>e. GA_init ext0 (args0\<lparr>arg_selection_force := PyInt 1\<rparr>) st_empty = Inl e)
   \<and> arg_mask_log10_scale (args0\<lparr>arg_mask_log10_scale := Some [True], arg_bounds := [[- 1, 5]]\<rparr>) = Some [True]
   \<and> arg_bounds (args0\<lparr>arg_mask_log10_scale := Some [True], arg_bounds := [[- 1, 5]]\<rparr>) ! 0 ! 0 \<le> 0
   \<and> (\<exists>e. GA_init ext0 (args0\<lparr>arg_mask_log10_scale := Some [True], arg_bounds := [[- 1, 5]]\<rparr>) st_empty = Inl e)"
  using GA_init_rejects [of "args0\<lparr>arg_crossover_rate := 3 / 2\<rparr>" ext0 st_empty
      "args0\<lparr>arg_selection_force := PyInt 1\<rparr>"
      "args0\<lparr>arg_mask_log10_scale := Some [True], arg_bounds := [[- 1, 5]]\<rparr>" "[True]" 0]
  by simp

section \<open>Distinct parents\<close>

lemma select_parents_distinct_aux:
  assumes "select_parents ext ga population parent1 parent2 st = Some res"
  shows "fst (fst res) \<noteq> snd (fst res)"
proof (rule select_parents.raw_induct
    [where P = "\<lambda>ext ga population parent1 parent2 st res. fst (fst res) \<noteq> snd (fst res)",
      OF _ assms])
  fix f and ext :: "('a, 'b) external" and ga population parent1 parent2 st res
  assume IH: "\<And>ext ga population parent1 parent2 st res.
      f ext ga population parent1 parent2 st = Some res \<Longrightarrow> fst (fst res) \<noteq> snd (fst res)"
    and eq: "(if parent1 = parent2
        then let (p1, st1) = selection ext ga population st;
                 (p2, st2) = selection ext ga population st1
             in f ext ga population p1 p2 st2
        else Some ((parent1, parent2), st)) = Some res"
  show "fst (fst res) \<noteq> snd (fst res)"
  proof (cases "parent1 = parent2")
    case True
    with eq show ?thesis by (auto simp: Let_def split: prod.splits dest: IH)
  next
    case False
    with eq show ?thesis by auto
  qed
qed

text \<open>
  Claim C6. Every pair of parents that the retry loop of \<^verbatim>\<open>get_mutants\<close> hands to the
  crossover consists of two distinct instances: the loop only ends with
  \<open>parent1 \<noteq> parent2\<close>, whatever pair it was started with.
\<close>

theorem select_parents_distinct:
  "select_parents ext ga population parent1 parent2 st = Some ((p1, p2), st') \<Longrightarrow> p1 \<noteq> p2"
  using select_parents_distinct_aux by fastforce

theorem select_parents_distinct_witness:
  "select_parents ext0 ga0 [0, 1, 2] 0 0 (st0\<lparr>rng := 2\<rparr>) = Some ((1, 0), st0\<lparr>rng := 6\<rparr>)
   \<and> (1::nat) \<noteq> 0"
proof -
  have run: "select_parents ext0 ga0 [0, 1, 2] 0 0 (st0\<lparr>rng := 2\<rparr>) = Some ((1, 0), st0\<lparr>rng := 6\<rparr>)"
    by code_simp
  from select_parents_distinct [OF run] run show ?thesis by simp
qed

section \<open>The argument of \<^verbatim>\<open>mutate_population\<close>\<close>

lemma transform_solution_error:
  "transform_solution ext ga sol st = Inl e \<Longrightarrow> e = AssertionError"
  by (auto simp: transform_solution_def transform_genes_def split: sum.splits prod.splits if_splits)

lemma transform_population_non_solution:
  "\<not> list_all (\<lambda>v. \<exists>a. v = PySol a) vs \<Longrightarrow>
     transform_population ext ga vs st = Inl AttributeError
     \<or> transform_population ext ga vs st = Inl AssertionError"
proof (induction vs arbitrary: st)
  case Nil
  then show ?case by simp
next
  case (Cons v vs)
  show ?case
  proof (cases v)
    case (PySol a)
    with Cons.prems have rest: "\<not> list_all (\<lambda>v. \<exists>a. v = PySol a) vs" by simp
    show ?thesis
    proof (cases "transform_solution ext ga a st")
      case (Inl e)
      with transform_solution_error [OF Inl] PySol show ?thesis by simp
    next
      case (Inr r)
      obtain t st1 where r: "r = (t, st1)" by (cases r)
      from Cons.IH [OF rest, of st1] PySol Inr r show ?thesis by auto
    qed
  qed simp_all
qed

lemma mutate_population_not_list:
  "(\<forall>vs. population \<noteq> PyList vs) \<Longrightarrow> mutate_population ext ga population st = Inl TypeError"
  by (cases population) (simp_all add: mutate_population_def)

text \<open>
  Claim C9, as amended. \<^verbatim>\<open>mutate_population\<close> raises TypeError for every argument that
  is not a list (an \<^verbatim>\<open>int\<close> passes the \<^verbatim>\<open>isinstance\<close> test and fails when it is
  iterated). The elements of a list are not type-checked: a list that holds something
  other than a solution raises as well and returns no population, but the error is
  an AttributeError (or the AssertionError of an element transformed before), not a
  TypeError.
\<close>

theorem mutate_population_rejects:
  "((\<forall>vs. population \<noteq> PyList vs) \<longrightarrow>
       mutate_population ext ga population st = Inl TypeError)
   \<and> (\<not> list_all (\<lambda>v. \<exists>a. v = PySol a) vs \<longrightarrow>
       mutate_population ext ga (PyList vs) st = Inl AttributeError
       \<or> mutate_population ext ga (PyList vs) st = Inl AssertionError)"
proof (intro conjI impI)
  assume "\<forall>vs. population \<noteq> PyList vs"
  then show "mutate_population ext ga population st = Inl TypeError"
    by (rule mutate_population_not_list)
next
  assume "\<not> list_all (\<lambda>v. \<exists>a. v = PySol a) vs"
  from transform_population_non_solution [OF this, of ext ga st]
  show "mutate_population ext ga (PyList vs) st = Inl AttributeError
       \<or> mutate_population ext ga (PyList vs) st = Inl AssertionError"
    by (auto simp: mutate_population_def)
qed

theorem mutate_population_rejects_witness:
  "(\<forall>vs. PyInt 5 \<noteq> PyList vs) \<and> mutate_population ext0 ga0 (PyInt 5) st0 = Inl TypeError
   \<and> \<not> list_all (\<lambda>v. \<exists>a. v = PySol a) [PySol 0, PyInt 1]
   \<and> mutate_population ext0 ga0 (PyList [PySol 0, PyInt 1]) st0 \<noteq> Inl AssertionError
   \<and> mutate_population ext0 ga0 (PyList [PySol 0, PyInt 1]) st0 = Inl AttributeError"
proof -
  have "mutate_population ext0 ga0 (PyList [PySol 0, PyInt 1]) st0 \<noteq> Inl AssertionError"
    by code_simp
  with mutate_population_rejects [of "PyInt 5" ext0 ga0 st0 "[PySol 0, PyInt 1]"]
  show ?thesis by simp
qed

text \<open>The claim as stated fails: a list with a non-solution raises AttributeError.\<close>

theorem mutate_population_list_of_int:
  "mutate_population ext0 ga0 (PyList [PyInt 1]) st0 = Inl AttributeError"
  by code_simp

section \<open>What the operations do to the store\<close>

lemma extends_refl: "extends st st"
  by (simp add: extends_def)

lemma extends_trans: "extends st1 st2 \<Longrightarrow> extends st2 st3 \<Longrightarrow> extends st1 st3"
  unfolding extends_def by (auto intro: le_trans)

lemma extends_rng: "extends st (st\<lparr>rng := r\<rparr>)"
  by (simp add: extends_def)

lemma extends_arrays: "extends st st' \<Longrightarrow> arrays st' = arrays st"
  by (simp add: extends_def)

lemma extends_sols: "extends st st' \<Longrightarrow> a < length (sols st) \<Longrightarrow> sols st' ! a = sols st ! a"
  by (simp add: extends_def)

lemma extends_cells: "extends st st' \<Longrightarrow> c < length (cells st) \<Longrightarrow> cells st' ! c = cells st ! c"
  by (simp add: extends_def)

lemma new_solution_extends: "new_solution s st = (a, st') \<Longrightarrow> extends st st'"
  by (auto simp: new_solution_def extends_def nth_append)

lemma new_solutions_result:
  "new_solutions ss st = (as, st') \<Longrightarrow> length as = length ss \<and> extends st st'"
proof (induction ss arbitrary: st as st')
  case Nil
  then show ?case by (simp add: extends_refl)
next
  case (Cons s ss)
  obtain a st1 where a: "new_solution s st = (a, st1)" by (cases "new_solution s st")
  obtain as' st2 where as': "new_solutions ss st1 = (as', st2)" by (cases "new_solutions ss st1")
  from Cons.prems a as' have "as = a # as'" "st' = st2" by simp_all
  with Cons.IH [OF as'] new_solution_extends [OF a] show ?case
    by (auto intro: extends_trans)
qed

lemma transform_solution_back_extends:
  "transform_solution_back ext ga sol st = (a, st') \<Longrightarrow> extends st st'"
  unfolding transform_solution_back_def by (rule new_solution_extends)

lemma transform_population_back_result:
  "transform_population_back ext ga population st = (as, st') \<Longrightarrow>
     length as = length population \<and> extends st st'"
proof (induction population arbitrary: st as st')
  case Nil
  then show ?case by (simp add: extends_refl)
next
  case (Cons sol rest)
  obtain a st1 where a: "transform_solution_back ext ga sol st = (a, st1)"
    by (cases "transform_solution_back ext ga sol st")
  obtain as' st2 where as': "transform_population_back ext ga rest st1 = (as', st2)"
    by (cases "transform_population_back ext ga rest st1")
  from Cons.prems a as' have "as = a # as'" "st' = st2" by simp_all
  with Cons.IH [OF as'] transform_solution_back_extends [OF a] show ?case
    by (auto intro: extends_trans)
qed

lemma mutate_population_transformed_result:
  "mutate_population_transformed ext ga population st = (as, st') \<Longrightarrow>
     length as = length (fst (cauchy_mutation_population ext (map (\<lambda>a. sols st ! a) population)
        (self_bounds_transformed ga) (self_gamma_default ga) (self_mutation_rate ga) (rng st)))
     \<and> extends st st'"
  unfolding mutate_population_transformed_def
  by (auto simp: split_beta dest!: new_solutions_result intro: extends_trans [OF extends_rng])

lemma transform_solution_result:
  "transform_solution ext ga sol st = Inr (t, st') \<Longrightarrow>
     t = length (sols st) \<and> extends st st' \<and> length (sols st') = Suc (length (sols st))
     \<and> (\<exists>g. sols st' ! t = (SolutionSubclass ext g (sol_data (sols st ! sol)))\<lparr>sol_y := sol_y (sols st ! sol)\<rparr>)"
  unfolding transform_solution_def
  by (auto simp: new_solution_def extends_def nth_append split: sum.splits)

lemma deepcopy_value_extends: "deepcopy_value c st = (c', st') \<Longrightarrow> extends st st'"
  by (auto simp: deepcopy_value_def extends_def nth_append split: if_splits)

lemma deepcopy_value_result:
  assumes "deepcopy_value c st = (c', st')"
  shows "sols st' = sols st" and "arrays st' = arrays st" and "rng st' = rng st"
    and "length (cells st) \<le> length (cells st')"
    and "\<forall>a < length (cells st). cells st' ! a = cells st ! a"
    and "c < length (cells st) \<Longrightarrow> c' < length (cells st') \<and> cells st' ! c' = cells st ! c"
    and "if immutable (cells st ! c) then c' = c else c' = length (cells st)"
  using assms by (auto simp: deepcopy_value_def nth_append split: if_splits)

lemma deepcopy_data_extends: "deepcopy_data memo kvs st = (d, st') \<Longrightarrow> extends st st'"
proof (induction memo kvs st arbitrary: d st' rule: deepcopy_data.induct)
  case (1 memo st)
  then show ?case by (simp add: extends_refl)
next
  case (2 memo k c kvs st)
  show ?case
  proof (cases "map_of memo c")
    case (Some c')
    obtain r st1 where r: "deepcopy_data memo kvs st = (r, st1)"
      by (cases "deepcopy_data memo kvs st")
    from "2.prems" Some r have "st' = st1" by simp
    with "2.IH"(2) [OF Some r] show ?thesis by simp
  next
    case None
    obtain c' st1 where c': "deepcopy_value c st = (c', st1)" by (cases "deepcopy_value c st")
    let ?memo = "if immutable (cells st ! c) then memo else (c, c') # memo"
    obtain r st2 where r: "deepcopy_data ?memo kvs st1 = (r, st2)"
      by (cases "deepcopy_data ?memo kvs st1")
    from "2.prems" None c' r have "st' = st2" by simp
    with "2.IH"(1) [OF None c' [symmetric] refl r] deepcopy_value_extends [OF c']
    show ?thesis by (auto intro: extends_trans)
  qed
qed

lemma deepcopy_solution_result:
  assumes "deepcopy_solution a st = (b, st')"
  shows "extends st st' \<and> length (sols st) \<le> b"
proof -
  obtain d st1 where d: "deepcopy_data [] (sol_data (sols st ! a)) st = (d, st1)"
    by (cases "deepcopy_data [] (sol_data (sols st ! a)) st")
  from assms d have n: "new_solution ((sols st ! a)\<lparr>sol_data := d\<rparr>) st1 = (b, st')"
    by (simp add: deepcopy_solution_def Let_def)
  have e1: "extends st st1" using d by (rule deepcopy_data_extends)
  have e2: "extends st1 st'" using n by (rule new_solution_extends)
  from n have "b = length (sols st1)" by (auto simp: new_solution_def)
  with e1 have "length (sols st) \<le> b" by (simp add: extends_def)
  with e1 e2 show ?thesis by (blast intro: extends_trans)
qed


subsection \<open>Payload transmission\<close>

text \<open>
  Transmitting payload to a child changes the solution object of the child and may
  allocate cells; every other object, every older cell and every array stays as it was.
\<close>

lemma transmit_solution_data_result:
  "transmit_solution_data keys sol_parent sol_child st = Inr st' \<Longrightarrow>
     length (sols st') = length (sols st)
     \<and> (\<forall>a. a \<noteq> sol_child \<longrightarrow> sols st' ! a = sols st ! a)
     \<and> length (cells st) \<le> length (cells st')
     \<and> (\<forall>c < length (cells st). cells st' ! c = cells st ! c)
     \<and> arrays st' = arrays st \<and> rng st' = rng st"
proof (induction keys arbitrary: st)
  case Nil
  then show ?case by simp
next
  case (Cons key keys)
  from Cons.prems obtain c where c: "map_of (sol_data (sols st ! sol_parent)) key = Some c"
    by (auto split: option.splits)
  obtain c' st1 where d: "deepcopy_value c st = (c', st1)" by (cases "deepcopy_value c st")
  let ?st2 = "setitem sol_child key c' st1"
  from Cons.prems c d have "transmit_solution_data keys sol_parent sol_child ?st2 = Inr st'"
    by simp
  from Cons.IH [OF this] deepcopy_value_result(1-5) [OF d] show ?case
    by (auto simp: setitem_def)
qed

lemma make_child_result:
  assumes "make_child ext ga transmitter genes st = Inr (child, st')"
  shows "child = length (sols st) \<and> extends st st' \<and> length (sols st') = Suc (length (sols st))
     \<and> rng st' = rng st"
proof -
  let ?st1 = "st\<lparr>sols := sols st @ [SolutionSubclass ext genes []]\<rparr>"
  from assms have child: "child = length (sols st)"
    and t: "transmit_solution_data (self_keys_data_transmit ga) transmitter child ?st1 = Inr st'"
    by (auto simp: make_child_def new_solution_def split: sum.splits)
  from transmit_solution_data_result [OF t] child show ?thesis
    by (auto simp: extends_def nth_append)
qed

lemma offspring_result:
  assumes "offspring ext ga p1 p2 st = Inr (children, st')"
  shows "length children = 2 \<and> extends st st'"
proof -
  obtain u r where u: "rng_random ext (rng st) = (u, r)" by (cases "rng_random ext (rng st)")
  let ?st0 = "st\<lparr>rng := r\<rparr>"
  have e0: "extends st ?st0" by (rule extends_rng)
  show ?thesis
  proof (cases "u \<le> self_crossover_rate ga")
    case True
    obtain g1 g2 st1 where c: "crossover ext ga (sol_x (sols ?st0 ! p1)) (sol_x (sols ?st0 ! p2)) ?st0
        = ((g1, g2), st1)"
      by (metis prod.exhaust)
    from c have e1: "extends ?st0 st1"
      by (auto simp: crossover_def extends_def split: prod.splits)
    from assms u True c obtain c1 st2 c2 where
      m1: "make_child ext ga (min_solution st1 p1 p2) g1 st1 = Inr (c1, st2)" and
      m2: "make_child ext ga (min_solution st1 p1 p2) g2 st2 = Inr (c2, st')" and
      ch: "children = [c1, c2]"
      by (auto simp: offspring_def Let_def split: sum.splits)
    from make_child_result [OF m1] make_child_result [OF m2] e0 e1 ch show ?thesis
      by (auto intro: extends_trans)
  next
    case False
    obtain c1 st1 where d1: "deepcopy_solution p1 ?st0 = (c1, st1)" by (metis prod.exhaust)
    obtain c2 st2 where d2: "deepcopy_solution p2 st1 = (c2, st2)" by (metis prod.exhaust)
    from assms u False d1 d2 have "children = [c1, c2]" "st' = st2"
      by (auto simp: offspring_def Let_def)
    with deepcopy_solution_result [OF d1] deepcopy_solution_result [OF d2] e0 show ?thesis
      by (auto intro: extends_trans)
  qed
qed

subsection \<open>The retry loop\<close>

lemma selection_result:
  "selection ext ga population st = (p, st') \<Longrightarrow> st' = st\<lparr>rng := rng st'\<rparr>"
  by (auto simp: selection_def split: prod.splits)

lemma select_parents_frame_aux:
  assumes "select_parents ext ga population parent1 parent2 st = Some res"
  shows "snd res = st\<lparr>rng := rng (snd res)\<rparr>"
proof (rule select_parents.raw_induct
    [where P = "\<lambda>ext ga population parent1 parent2 st res. snd res = st\<lparr>rng := rng (snd res)\<rparr>",
      OF _ assms])
  fix f and ext :: "('a, 'b) external" and ga population parent1 parent2 st res
  assume IH: "\<And>ext ga population parent1 parent2 st res.
      f ext ga population parent1 parent2 st = Some res \<Longrightarrow> snd res = st\<lparr>rng := rng (snd res)\<rparr>"
    and eq: "(if parent1 = parent2
        then let (p1, st1) = selection ext ga population st;
                 (p2, st2) = selection ext ga population st1
             in f ext ga population p1 p2 st2
        else Some ((parent1, parent2), st)) = Some res"
  show "snd res = st\<lparr>rng := rng (snd res)\<rparr>"
  proof (cases "parent1 = parent2")
    case True
    obtain p1 st1 where s1: "selection ext ga population st = (p1, st1)" by (metis prod.exhaust)
    obtain p2 st2 where s2: "selection ext ga population st1 = (p2, st2)" by (metis prod.exhaust)
    from eq True s1 s2 have "f ext ga population p1 p2 st2 = Some res" by simp
    from IH [OF this] have "snd res = st2\<lparr>rng := rng (snd res)\<rparr>" .
    also have "st2 = st1\<lparr>rng := rng st2\<rparr>" using s2 by (rule selection_result)
    also have "st1 = st\<lparr>rng := rng st1\<rparr>" using s1 by (rule selection_result)
    finally show ?thesis by simp
  next
    case False
    with eq show ?thesis by auto
  qed
qed

lemma select_parents_extends:
  "select_parents ext ga population parent1 parent2 st = Some ((p1, p2), st') \<Longrightarrow> extends st st'"
  using select_parents_frame_aux [of ext ga population parent1 parent2 st "((p1, p2), st')"]
    extends_rng [of st "rng st'"] by simp

subsection \<open>The loop of \<open>get_mutants\<close>\<close>

lemma mutants_loop_result_aux:
  assumes "mutants_loop ext ga population sz population_new st = Some res"
  shows "\<forall>r st'. res = Inr (r, st') \<longrightarrow> sz \<le> int (length r) \<and> extends st st'"
proof (rule mutants_loop.raw_induct
    [where P = "\<lambda>ext ga population sz population_new st res.
        \<forall>r st'. res = Inr (r, st') \<longrightarrow> sz \<le> int (length r) \<and> extends st st'",
      OF _ assms])
  fix f and ext :: "('a::linorder, 'b) external" and ga population sz population_new st res
  assume IH: "\<And>ext ga population sz population_new st res.
      f ext ga population sz population_new st = Some res \<Longrightarrow>
      \<forall>r st'. res = Inr (r, st') \<longrightarrow> sz \<le> int (length r) \<and> extends st st'"
    and eq: "(if int (length population_new) < sz
        then case select_parents ext ga population (population ! 0) (population ! 0) st of
               None \<Rightarrow> None
             | Some ((parent1, parent2), st1) \<Rightarrow>
                 (case transform_solution ext ga parent1 st1 of
                    Inl e \<Rightarrow> Some (Inl e)
                  | Inr (parent1_transformed, st2) \<Rightarrow>
                      (case transform_solution ext ga parent2 st2 of
                         Inl e \<Rightarrow> Some (Inl e)
                       | Inr (parent2_transformed, st3) \<Rightarrow>
                           (case offspring ext ga parent1_transformed parent2_transformed st3 of
                              Inl e \<Rightarrow> Some (Inl e)
                            | Inr (children, st4) \<Rightarrow>
                                f ext ga population sz (population_new @ children) st4)))
        else Some (Inr (population_new, st))) = Some res"
  show "\<forall>r st'. res = Inr (r, st') \<longrightarrow> sz \<le> int (length r) \<and> extends st st'"
  proof (intro allI impI)
    fix r st'
    assume res: "res = Inr (r, st')"
    show "sz \<le> int (length r) \<and> extends st st'"
    proof (cases "int (length population_new) < sz")
      case False
      with eq res show ?thesis by (auto simp: extends_refl)
    next
      case True
      with eq res obtain p1 p2 st1 t1 st2 t2 st3 children st4 where
        sp: "select_parents ext ga population (population ! 0) (population ! 0) st = Some ((p1, p2), st1)"
        and t1: "transform_solution ext ga p1 st1 = Inr (t1, st2)"
        and t2: "transform_solution ext ga p2 st2 = Inr (t2, st3)"
        and off: "offspring ext ga t1 t2 st3 = Inr (children, st4)"
        and rec: "f ext ga population sz (population_new @ children) st4 = Some (Inr (r, st'))"
        by (auto split: option.splits sum.splits prod.splits)
      from IH [OF rec] have "sz \<le> int (length r)" "extends st4 st'" by simp_all
      moreover have "extends st st4"
        using select_parents_extends [OF sp] transform_solution_result [OF t1]
          transform_solution_result [OF t2] offspring_result [OF off]
        by (blast intro: extends_trans)
      ultimately show ?thesis by (blast intro: extends_trans)
    qed
  qed
qed

lemma mutants_loop_result:
  "mutants_loop ext ga population sz population_new st = Some (Inr (r, st')) \<Longrightarrow>
     sz \<le> int (length r) \<and> extends st st'"
  using mutants_loop_result_aux by blast

text \<open>
  What a returning call of \<^verbatim>\<open>get_mutants\<close> tells: its guards held, the store was only
  extended, and the result has \<open>size\<close> elements when the mutation operator returns as many
  individuals as it is given.
\<close>

lemma get_mutants_result:
  assumes ret: "get_mutants ext ga population sz st = Some (Inr (r, st'))"
  shows "3 \<le> length population \<and> is_int sz \<and> 0 \<le> int_of sz \<and> extends st st'
     \<and> ((\<forall>p b g m s. length (fst (cauchy_mutation_population ext p b g m s)) = length p)
          \<longrightarrow> int (length r) = int_of sz)"
proof -
  from ret have pre: "3 \<le> length population" "is_int sz" "0 \<le> int_of sz"
    by (auto simp: get_mutants_def split: if_splits)
  with ret obtain pn st1 where
    loop: "mutants_loop ext ga population (int_of sz) [] st = Some (Inr (pn, st1))"
    by (auto simp: get_mutants_def split: option.splits sum.splits)
  obtain mutated st2 where
    mu: "mutate_population_transformed ext ga (take (nat (int_of sz)) pn) st1 = (mutated, st2)"
    by (metis prod.exhaust)
  from ret pre loop mu have tb: "transform_population_back ext ga mutated st2 = (r, st')"
    by (auto simp: get_mutants_def)
  from mutants_loop_result [OF loop] have len: "int_of sz \<le> int (length pn)" and e1: "extends st st1"
    by simp_all
  from mutate_population_transformed_result [OF mu] transform_population_back_result [OF tb] e1
  have ext: "extends st st'" by (blast intro: extends_trans)
  have "int (length r) = int_of sz"
    if keeps: "\<forall>p b g m s. length (fst (cauchy_mutation_population ext p b g m s)) = length p"
  proof -
    from mutate_population_transformed_result [OF mu] keeps
    have "length mutated = length (take (nat (int_of sz)) pn)" by simp
    with transform_population_back_result [OF tb] len pre show ?thesis by simp
  qed
  with pre ext show ?thesis by blast
qed

subsection \<open>When the loop of \<open>get_mutants\<close> comes to an end\<close>

lemma selection_member:
  assumes member: "\<forall>cands f r. cands \<noteq> [] \<longrightarrow> fst (tournament_selection ext cands f r) \<in> fst ` set cands"
    and "population \<noteq> []" and "selection ext ga population st = (p, st')"
  shows "p \<in> set population"
proof -
  let ?cands = "map (\<lambda>a. (a, sols st ! a)) population"
  from assms(2) have "?cands \<noteq> []" by simp
  with member have "fst (tournament_selection ext ?cands (self_selection_force ga) (rng st)) \<in> fst ` set ?cands"
    by blast
  moreover have "fst ` set ?cands = set population" by force
  moreover from assms(3) have "p = fst (tournament_selection ext ?cands (self_selection_force ga) (rng st))"
    by (auto simp: selection_def split: prod.splits)
  ultimately show ?thesis by simp
qed

lemma select_parents_member_aux:
  assumes "select_parents ext ga population parent1 parent2 st = Some res"
  shows "(\<forall>cands f r. cands \<noteq> [] \<longrightarrow> fst (tournament_selection ext cands f r) \<in> fst ` set cands)
      \<longrightarrow> population \<noteq> [] \<longrightarrow> (parent1 = parent2 \<or> parent1 \<in> set population \<and> parent2 \<in> set population)
      \<longrightarrow> fst (fst res) \<in> set population \<and> snd (fst res) \<in> set population"
proof (rule select_parents.raw_induct
    [where P = "\<lambda>ext ga population parent1 parent2 st res.
      (\<forall>cands f r. cands \<noteq> [] \<longrightarrow> fst (tournament_selection ext cands f r) \<in> fst ` set cands)
      \<longrightarrow> population \<noteq> [] \<longrightarrow> (parent1 = parent2 \<or> parent1 \<in> set population \<and> parent2 \<in> set population)
      \<longrightarrow> fst (fst res) \<in> set population \<and> snd (fst res) \<in> set population",
      OF _ assms])
  fix f and ext :: "('a, 'b) external" and ga population parent1 parent2 st res
  assume IH: "\<And>ext ga population parent1 parent2 st res.
      f ext ga population parent1 parent2 st = Some res \<Longrightarrow>
      (\<forall>cands f r. cands \<noteq> [] \<longrightarrow> fst (tournament_selection ext cands f r) \<in> fst ` set cands)
      \<longrightarrow> population \<noteq> [] \<longrightarrow> (parent1 = parent2 \<or> parent1 \<in> set population \<and> parent2 \<in> set population)
      \<longrightarrow> fst (fst res) \<in> set population \<and> snd (fst res) \<in> set population"
    and eq: "(if parent1 = parent2
        then let (p1, st1) = selection ext ga population st;
                 (p2, st2) = selection ext ga population st1
             in f ext ga population p1 p2 st2
        else Some ((parent1, parent2), st)) = Some res"
  show "(\<forall>cands f r. cands \<noteq> [] \<longrightarrow> fst (tournament_selection ext cands f r) \<in> fst ` set cands)
      \<longrightarrow> population \<noteq> [] \<longrightarrow> (parent1 = parent2 \<or> parent1 \<in> set population \<and> parent2 \<in> set population)
      \<longrightarrow> fst (fst res) \<in> set population \<and> snd (fst res) \<in> set population"
  proof (intro impI)
    assume member: "\<forall>cands f r. cands \<noteq> [] \<longrightarrow> fst (tournament_selection ext cands f r) \<in> fst ` set cands"
      and ne: "population \<noteq> []"
      and init: "parent1 = parent2 \<or> parent1 \<in> set population \<and> parent2 \<in> set population"
    show "fst (fst res) \<in> set population \<and> snd (fst res) \<in> set population"
    proof (cases "parent1 = parent2")
      case True
      obtain p1 st1 where s1: "selection ext ga population st = (p1, st1)" by (metis prod.exhaust)
      obtain p2 st2 where s2: "selection ext ga population st1 = (p2, st2)" by (metis prod.exhaust)
      from eq True s1 s2 have "f ext ga population p1 p2 st2 = Some res" by simp
      moreover have "p1 \<in> set population" "p2 \<in> set population"
        using selection_member [OF member ne s1] selection_member [OF member ne s2] by simp_all
      ultimately show ?thesis using IH member ne by blast
    next
      case False
      with eq init show ?thesis by auto
    qed
  qed
qed

lemma select_parents_member:
  assumes "\<forall>cands f r. cands \<noteq> [] \<longrightarrow> fst (tournament_selection ext cands f r) \<in> fst ` set cands"
    and "population \<noteq> []"
    and "select_parents ext ga population a a st = Some ((p1, p2), st')"
  shows "p1 \<in> set population \<and> p2 \<in> set population"
  using select_parents_member_aux [OF assms(3)] assms(1,2) by simp

lemma transform_solution_ok:
  assumes "allclose (snd (transform_genes_bounds ext (sol_x (sols st ! sol)) (arrays st ! self_bounds ga)
      (self_gammas ga) (self_mask_log10_scale ga))) (self_bounds_transformed ga)"
  shows "\<exists>t st'. transform_solution ext ga sol st = Inr (t, st')"
  using assms
  by (simp add: transform_solution_def transform_genes_def split_beta new_solution_def)

lemma transmit_solution_data_ok:
  "set keys \<subseteq> fst ` set (sol_data (sols st ! sol_parent)) \<Longrightarrow> sol_parent \<noteq> sol_child \<Longrightarrow>
     \<exists>st'. transmit_solution_data keys sol_parent sol_child st = Inr st'"
proof (induction keys arbitrary: st)
  case Nil
  then show ?case by simp
next
  case (Cons key keys)
  from Cons.prems(1) have "key \<in> fst ` set (sol_data (sols st ! sol_parent))" by simp
  then obtain c where c: "map_of (sol_data (sols st ! sol_parent)) key = Some c"
    by (metis map_of_eq_None_iff not_Some_eq)
  obtain c' st1 where d: "deepcopy_value c st = (c', st1)" by (cases "deepcopy_value c st")
  let ?st2 = "setitem sol_child key c' st1"
  from Cons.prems(2) deepcopy_value_result(1) [OF d]
  have "sols ?st2 ! sol_parent = sols st ! sol_parent"
    by (simp add: setitem_def)
  with Cons.prems have "set keys \<subseteq> fst ` set (sol_data (sols ?st2 ! sol_parent))" by simp
  from Cons.IH [OF this Cons.prems(2)] c d show ?case
    by simp
qed

lemma make_child_ok:
  assumes "transmitter < length (sols st)"
    and "set (self_keys_data_transmit ga) \<subseteq> fst ` set (sol_data (sols st ! transmitter))"
  shows "\<exists>child st'. make_child ext ga transmitter genes st = Inr (child, st')"
proof -
  let ?st1 = "st\<lparr>sols := sols st @ [SolutionSubclass ext genes []]\<rparr>"
  from assms have "set (self_keys_data_transmit ga) \<subseteq> fst ` set (sol_data (sols ?st1 ! transmitter))"
    by (simp add: nth_append)
  moreover from assms(1) have "transmitter \<noteq> length (sols st)" by simp
  ultimately obtain st' where
    "transmit_solution_data (self_keys_data_transmit ga) transmitter (length (sols st)) ?st1 = Inr st'"
    using transmit_solution_data_ok by blast
  then show ?thesis by (simp add: make_child_def new_solution_def)
qed

lemma offspring_ok:
  fixes ext :: "('f::linorder, 'r) external"
  assumes p1: "p1 < length (sols st)" and p2: "p2 < length (sols st)"
    and k1: "set (self_keys_data_transmit ga) \<subseteq> fst ` set (sol_data (sols st ! p1))"
    and k2: "set (self_keys_data_transmit ga) \<subseteq> fst ` set (sol_data (sols st ! p2))"
  shows "\<exists>children st'. offspring ext ga p1 p2 st = Inr (children, st')"
proof -
  obtain u r where u: "rng_random ext (rng st) = (u, r)" by (metis prod.exhaust)
  let ?st0 = "st\<lparr>rng := r\<rparr>"
  show ?thesis
  proof (cases "u \<le> self_crossover_rate ga")
    case True
    obtain g1 g2 st1 where c: "crossover ext ga (sol_x (sols ?st0 ! p1)) (sol_x (sols ?st0 ! p2)) ?st0
        = ((g1, g2), st1)"
      by (metis prod.exhaust)
    from c have s1: "sols st1 = sols st"
      by (auto simp: crossover_def split: prod.splits)
    let ?t = "min_solution st1 p1 p2"
    from p1 p2 s1 have t: "?t < length (sols st1)" by (simp add: min_solution_def)
    from k1 k2 s1 have kt: "set (self_keys_data_transmit ga) \<subseteq> fst ` set (sol_data (sols st1 ! ?t))"
      by (simp add: min_solution_def)
    from make_child_ok [OF t kt] obtain c1 st2 where
      m1: "make_child ext ga ?t g1 st1 = Inr (c1, st2)" by blast
    from make_child_result [OF m1] t have e: "extends st1 st2" and t2: "?t < length (sols st2)"
      by simp_all
    from extends_sols [OF e t] kt
    have kt2: "set (self_keys_data_transmit ga) \<subseteq> fst ` set (sol_data (sols st2 ! ?t))" by simp
    from make_child_ok [OF t2 kt2] obtain c2 st3 where
      m2: "make_child ext ga ?t g2 st2 = Inr (c2, st3)" by blast
    from u True c m1 m2 show ?thesis by (simp add: offspring_def Let_def)
  next
    case False
    with u show ?thesis by (simp add: offspring_def Let_def split_beta)
  qed
qed

lemma mutants_loop_returns:
  fixes ext :: "('f::linorder, 'r) external"
  assumes ne: "population \<noteq> []"
    and alloc: "\<forall>a \<in> set population. a < length (sols base)"
    and member: "\<forall>cands f r. cands \<noteq> [] \<longrightarrow> fst (tournament_selection ext cands f r) \<in> fst ` set cands"
    and retry: "\<forall>st'. extends base st' \<longrightarrow>
        select_parents ext ga population (population ! 0) (population ! 0) st' \<noteq> None"
    and consistent: "\<forall>genes. allclose (snd (transform_genes_bounds ext genes (arrays base ! self_bounds ga)
        (self_gammas ga) (self_mask_log10_scale ga))) (self_bounds_transformed ga)"
    and keys: "\<forall>a \<in> set population. \<forall>genes. set (self_keys_data_transmit ga)
        \<subseteq> fst ` set (sol_data (SolutionSubclass ext genes (sol_data (sols base ! a))))"
  shows "extends base st \<Longrightarrow> \<exists>r st'. mutants_loop ext ga population sz population_new st = Some (Inr (r, st'))"
proof (induction "nat (sz - int (length population_new))" arbitrary: population_new st rule: less_induct)
  case less
  show ?case
  proof (cases "int (length population_new) < sz")
    case False
    then show ?thesis by (subst mutants_loop.simps) simp
  next
    case True
    from retry less.prems obtain p1 p2 st1 where
      sp: "select_parents ext ga population (population ! 0) (population ! 0) st = Some ((p1, p2), st1)"
      by (metis not_Some_eq prod.exhaust)
    from select_parents_member [OF member ne sp] have mem: "p1 \<in> set population" "p2 \<in> set population"
      by simp_all
    have e1: "extends base st1"
      using less.prems select_parents_extends [OF sp] by (rule extends_trans)
    have parent_transformed: "\<exists>t st''. transform_solution ext ga p st' = Inr (t, st'')
        \<and> extends base st'' \<and> t < length (sols st'') \<and> length (sols st') < length (sols st'')
        \<and> set (self_keys_data_transmit ga) \<subseteq> fst ` set (sol_data (sols st'' ! t))"
      if p: "p \<in> set population" and e: "extends base st'" for p st'
    proof -
      from consistent extends_arrays [OF e] obtain t st'' where
        t: "transform_solution ext ga p st' = Inr (t, st'')"
        using transform_solution_ok [of ext st' p ga] by auto
      from transform_solution_result [OF t] obtain g where
        r: "t = length (sols st')" "extends st' st''" "length (sols st'') = Suc (length (sols st'))"
          "sols st'' ! t = (SolutionSubclass ext g (sol_data (sols st' ! p)))\<lparr>sol_y := sol_y (sols st' ! p)\<rparr>"
        by blast
      from p alloc e have "sols st' ! p = sols base ! p" by (simp add: extends_sols)
      with r(4) keys p have "set (self_keys_data_transmit ga) \<subseteq> fst ` set (sol_data (sols st'' ! t))"
        by simp
      with t r e show ?thesis by (auto intro: extends_trans)
    qed
    from parent_transformed [OF mem(1) e1] obtain t1 st2 where
      t1: "transform_solution ext ga p1 st1 = Inr (t1, st2)" and e2: "extends base st2"
      and t1_lt: "t1 < length (sols st2)"
      and k1: "set (self_keys_data_transmit ga) \<subseteq> fst ` set (sol_data (sols st2 ! t1))"
      by blast
    from parent_transformed [OF mem(2) e2] obtain t2 st3 where
      t2: "transform_solution ext ga p2 st2 = Inr (t2, st3)" and e3: "extends base st3"
      and t2_lt: "t2 < length (sols st3)" and grow: "length (sols st2) < length (sols st3)"
      and k2: "set (self_keys_data_transmit ga) \<subseteq> fst ` set (sol_data (sols st3 ! t2))"
      by blast
    from transform_solution_result [OF t2] have e23: "extends st2 st3" by simp
    from t1_lt grow have t1_lt3: "t1 < length (sols st3)" by simp
    from extends_sols [OF e23 t1_lt] k1
    have k1': "set (self_keys_data_transmit ga) \<subseteq> fst ` set (sol_data (sols st3 ! t1))" by simp
    from offspring_ok [OF t1_lt3 t2_lt k1' k2] obtain children st4 where
      off: "offspring ext ga t1 t2 st3 = Inr (children, st4)" by blast
    from offspring_result [OF off] have two: "length children = 2" and e34: "extends st3 st4"
      by simp_all
    have e4: "extends base st4" using e3 e34 by (rule extends_trans)
    from True two have "nat (sz - int (length (population_new @ children)))
        < nat (sz - int (length population_new))" by simp
    from less.hyps [OF this e4] obtain r st' where
      "mutants_loop ext ga population sz (population_new @ children) st4 = Some (Inr (r, st'))"
      by blast
    with True sp t1 t2 off show ?thesis by (subst mutants_loop.simps) simp
  qed
qed

subsection \<open>The concrete instance\<close>

lemma counter_tournament_member:
  "cands \<noteq> [] \<Longrightarrow> fst (counter_tournament cands f r) \<in> fst ` set cands"
  by (simp add: counter_tournament_def Let_def)

lemma selection0:
  assumes "extends st0 st"
  shows "selection ext0 ga0 [0, Suc 0, 2] st =
    (if rng st mod 3 = Suc 0 then Suc 0 else 0, st\<lparr>rng := Suc (rng st)\<rparr>)"
proof -
  from assms have s: "sols st ! 0 = sols st0 ! 0" "sols st ! Suc 0 = sols st0 ! Suc 0" "sols st ! 2 = sols st0 ! 2"
    by (simp_all add: extends_def st0_def)
  have "rng st mod 3 = 0 \<or> rng st mod 3 = 1 \<or> rng st mod 3 = 2" by arith
  then show ?thesis
    by (auto simp: selection_def ext0_def ga0_def counter_tournament_def Let_def s st0_def mod_Suc)
qed

lemma retry0:
  assumes "extends st0 st"
  shows "select_parents ext0 ga0 [0, 1, 2] 0 0 st \<noteq> None"
proof -
  let ?r = "rng st"
  have e: "\<And>r. extends st0 (st\<lparr>rng := r\<rparr>)" using assms by (simp add: extends_def)
  have "?r mod 3 = 0 \<or> ?r mod 3 = 1 \<or> ?r mod 3 = 2" by arith
  then show ?thesis
  proof (elim disjE)
    assume "?r mod 3 = 0"
    then show ?thesis
      by (subst select_parents.simps, simp add: selection0 [OF assms] selection0 [OF e] mod_Suc)
         (subst select_parents.simps, simp)
  next
    assume "?r mod 3 = 1"
    then show ?thesis
      by (subst select_parents.simps, simp add: selection0 [OF assms] selection0 [OF e] mod_Suc)
         (subst select_parents.simps, simp)
  next
    assume "?r mod 3 = 2"
    then show ?thesis
      by (subst select_parents.simps, simp add: selection0 [OF assms] selection0 [OF e] mod_Suc,
          subst select_parents.simps, simp add: selection0 [OF e] mod_Suc)
         (subst select_parents.simps, simp)
  qed
qed

lemma consistent0:
  "allclose (snd (transform_genes_bounds ext0 genes (arrays st0 ! self_bounds ga0)
      (self_gammas ga0) (self_mask_log10_scale ga0))) (self_bounds_transformed ga0)"
  by (simp add: ext0_def st0_def ga0_def shift_genes_bounds_def allclose_def isclose_def)

lemma keys0:
  "\<forall>a \<in> set [0, 1, 2]. \<forall>genes. set (self_keys_data_transmit ga0)
      \<subseteq> fst ` set (sol_data (SolutionSubclass ext0 genes (sol_data (sols st0 ! a))))"
  by (simp add: ext0_def st0_def ga0_def SimpleSolution_def)

text \<open>
  A tournament that always has the same winner keeps the retry loop going for ever. This
  is the case when the population holds a single instance, and also when the tournament
  returns the best of \<open>force\<close> candidates drawn without replacement (section 4.2 of the
  specification) and \<open>force\<close> is the size of the population.
\<close>

lemma select_parents_same_winner_aux:
  assumes "select_parents ext ga population parent1 parent2 st = Some res"
  shows "(\<forall>st'. fst (selection ext ga population st') = w) \<longrightarrow> parent1 \<noteq> parent2"
proof (rule select_parents.raw_induct
    [where P = "\<lambda>ext ga population parent1 parent2 st res.
      (\<forall>st'. fst (selection ext ga population st') = w) \<longrightarrow> parent1 \<noteq> parent2",
      OF _ assms])
  fix f and ext :: "('a, 'b) external" and ga population and parent1 :: addr and parent2 st res
  assume IH: "\<And>ext ga population parent1 parent2 st res.
      f ext ga population parent1 parent2 st = Some res \<Longrightarrow>
      (\<forall>st'. fst (selection ext ga population st') = w) \<longrightarrow> parent1 \<noteq> parent2"
    and eq: "(if parent1 = parent2
        then let (p1, st1) = selection ext ga population st;
                 (p2, st2) = selection ext ga population st1
             in f ext ga population p1 p2 st2
        else Some ((parent1, parent2), st)) = Some res"
  show "(\<forall>st'. fst (selection ext ga population st') = w) \<longrightarrow> parent1 \<noteq> parent2"
  proof (intro impI notI)
    assume winner: "\<forall>st'. fst (selection ext ga population st') = w" and same: "parent1 = parent2"
    obtain p1 st1 where s1: "selection ext ga population st = (p1, st1)" by (metis prod.exhaust)
    obtain p2 st2 where s2: "selection ext ga population st1 = (p2, st2)" by (metis prod.exhaust)
    from eq same s1 s2 have call: "f ext ga population p1 p2 st2 = Some res" by simp
    from winner s1 s2 have "p1 = w" "p2 = w" by (metis fst_conv)+
    with IH [OF call] winner show False by simp
  qed
qed

lemma select_parents_same_winner:
  assumes "\<forall>st'. fst (selection ext ga population st') = w"
  shows "select_parents ext ga population a a st = None"
proof (cases "select_parents ext ga population a a st")
  case None
  then show ?thesis .
next
  case (Some res)
  from select_parents_same_winner_aux [OF Some, of w] assms show ?thesis by simp
qed

lemma select_parents_degenerate_aux:
  assumes "select_parents ext ga population parent1 parent2 st = Some res"
  shows "(\<forall>cands f r. cands \<noteq> [] \<longrightarrow> fst (tournament_selection ext cands f r) \<in> fst ` set cands)
      \<longrightarrow> set population = {parent1} \<longrightarrow> parent1 \<noteq> parent2"
proof (rule select_parents.raw_induct
    [where P = "\<lambda>ext ga population parent1 parent2 st res.
      (\<forall>cands f r. cands \<noteq> [] \<longrightarrow> fst (tournament_selection ext cands f r) \<in> fst ` set cands)
      \<longrightarrow> set population = {parent1} \<longrightarrow> parent1 \<noteq> parent2",
      OF _ assms])
  fix f and ext :: "('a, 'b) external" and ga population and parent1 :: addr and parent2 st res
  assume IH: "\<And>ext ga population parent1 parent2 st res.
      f ext ga population parent1 parent2 st = Some res \<Longrightarrow>
      (\<forall>cands f r. cands \<noteq> [] \<longrightarrow> fst (tournament_selection ext cands f r) \<in> fst ` set cands)
      \<longrightarrow> set population = {parent1} \<longrightarrow> parent1 \<noteq> parent2"
    and eq: "(if parent1 = parent2
        then let (p1, st1) = selection ext ga population st;
                 (p2, st2) = selection ext ga population st1
             in f ext ga population p1 p2 st2
        else Some ((parent1, parent2), st)) = Some res"
  show "(\<forall>cands f r. cands \<noteq> [] \<longrightarrow> fst (tournament_selection ext cands f r) \<in> fst ` set cands)
      \<longrightarrow> set population = {parent1} \<longrightarrow> parent1 \<noteq> parent2"
  proof (intro impI notI)
    assume member: "\<forall>cands f r. cands \<noteq> [] \<longrightarrow> fst (tournament_selection ext cands f r) \<in> fst ` set cands"
      and single: "set population = {parent1}" and same: "parent1 = parent2"
    from single have ne: "population \<noteq> []" by auto
    obtain p1 st1 where s1: "selection ext ga population st = (p1, st1)" by (metis prod.exhaust)
    obtain p2 st2 where s2: "selection ext ga population st1 = (p2, st2)" by (metis prod.exhaust)
    from eq same s1 s2 have call: "f ext ga population p1 p2 st2 = Some res" by simp
    from selection_member [OF member ne s1] selection_member [OF member ne s2] single
    have "p1 = parent1" "p2 = parent1" by simp_all
    with IH [OF call] member single show False by simp
  qed
qed

lemma select_parents_degenerate:
  assumes "\<forall>cands f r. cands \<noteq> [] \<longrightarrow> fst (tournament_selection ext cands f r) \<in> fst ` set cands"
    and "set population = {a}"
  shows "select_parents ext ga population a a st = None"
proof (cases "select_parents ext ga population a a st")
  case None
  then show ?thesis .
next
  case (Some res)
  from select_parents_degenerate_aux [OF Some] assms show ?thesis by simp
qed

section \<open>The size of the result of \<^verbatim>\<open>get_mutants\<close>\<close>

text \<open>
  Claim C1, as amended. Let the mutation operator return as many individuals as it is
  given. Whenever \<^verbatim>\<open>get_mutants(population, size)\<close> returns, it returns exactly \<open>size\<close>
  solutions. It does return, with exactly \<open>k\<close> solutions, for a population of at least 3
  allocated solutions and \<open>k \<ge> 0\<close> when the tournament returns one of its candidates,
  every retry loop started in a store that extends the present one comes to an end, the
  bounds recomputed by the gene transform pass the \<^verbatim>\<open>allclose\<close> assertion and every
  transmitted key is in the payload of every transformed population member.
\<close>

theorem get_mutants_size:
  fixes ext :: "('f::linorder, 'r) external"
  assumes keeps: "\<forall>p b g m s. length (fst (cauchy_mutation_population ext p b g m s)) = length p"
  shows "(\<forall>r st'. get_mutants ext ga population sz st = Some (Inr (r, st')) \<longrightarrow>
            int (length r) = int_of sz)
     \<and> (3 \<le> length population \<and> 0 \<le> k
        \<and> (\<forall>a \<in> set population. a < length (sols st))
        \<and> (\<forall>cands f r. cands \<noteq> [] \<longrightarrow> fst (tournament_selection ext cands f r) \<in> fst ` set cands)
        \<and> (\<forall>st'. extends st st' \<longrightarrow>
              select_parents ext ga population (population ! 0) (population ! 0) st' \<noteq> None)
        \<and> (\<forall>genes. allclose (snd (transform_genes_bounds ext genes (arrays st ! self_bounds ga)
              (self_gammas ga) (self_mask_log10_scale ga))) (self_bounds_transformed ga))
        \<and> (\<forall>a \<in> set population. \<forall>genes. set (self_keys_data_transmit ga)
              \<subseteq> fst ` set (sol_data (SolutionSubclass ext genes (sol_data (sols st ! a)))))
        \<longrightarrow> (\<exists>r st'. get_mutants ext ga population (PyInt k) st = Some (Inr (r, st'))
              \<and> int (length r) = k))"
proof (intro conjI allI impI)
  fix r st'
  assume "get_mutants ext ga population sz st = Some (Inr (r, st'))"
  from get_mutants_result [OF this] keeps show "int (length r) = int_of sz" by blast
next
  assume hyps: "3 \<le> length population \<and> 0 \<le> k
        \<and> (\<forall>a \<in> set population. a < length (sols st))
        \<and> (\<forall>cands f r. cands \<noteq> [] \<longrightarrow> fst (tournament_selection ext cands f r) \<in> fst ` set cands)
        \<and> (\<forall>st'. extends st st' \<longrightarrow>
              select_parents ext ga population (population ! 0) (population ! 0) st' \<noteq> None)
        \<and> (\<forall>genes. allclose (snd (transform_genes_bounds ext genes (arrays st ! self_bounds ga)
              (self_gammas ga) (self_mask_log10_scale ga))) (self_bounds_transformed ga))
        \<and> (\<forall>a \<in> set population. \<forall>genes. set (self_keys_data_transmit ga)
              \<subseteq> fst ` set (sol_data (SolutionSubclass ext genes (sol_data (sols st ! a)))))"
  then have ne: "population \<noteq> []" by auto
  from hyps have
    "\<forall>a \<in> set population. a < length (sols st)"
    "\<forall>cands f r. cands \<noteq> [] \<longrightarrow> fst (tournament_selection ext cands f r) \<in> fst ` set cands"
    "\<forall>st'. extends st st' \<longrightarrow>
              select_parents ext ga population (population ! 0) (population ! 0) st' \<noteq> None"
    "\<forall>genes. allclose (snd (transform_genes_bounds ext genes (arrays st ! self_bounds ga)
              (self_gammas ga) (self_mask_log10_scale ga))) (self_bounds_transformed ga)"
    "\<forall>a \<in> set population. \<forall>genes. set (self_keys_data_transmit ga)
              \<subseteq> fst ` set (sol_data (SolutionSubclass ext genes (sol_data (sols st ! a))))"
    by blast+
  from mutants_loop_returns [OF ne this extends_refl, of k "[]"] obtain pn st1 where
    loop: "mutants_loop ext ga population k [] st = Some (Inr (pn, st1))" by blast
  obtain mutated st2 where
    mu: "mutate_population_transformed ext ga (take (nat k) pn) st1 = (mutated, st2)"
    by (metis prod.exhaust)
  obtain r st' where tb: "transform_population_back ext ga mutated st2 = (r, st')"
    by (metis prod.exhaust)
  from hyps loop mu tb have ret: "get_mutants ext ga population (PyInt k) st = Some (Inr (r, st'))"
    by (simp add: get_mutants_def)
  from get_mutants_result [OF ret] keeps have "int (length r) = k" by simp
  with ret show "\<exists>r st'. get_mutants ext ga population (PyInt k) st = Some (Inr (r, st'))
              \<and> int (length r) = k" by blast
qed

theorem get_mutants_size_witness:
  "3 \<le> length [0, 1, 2::nat] \<and> (0::int) \<le> 3
   \<and> (\<exists>r st'. get_mutants ext0 ga0 [0, 1, 2] (PyInt 3) st0 = Some (Inr (r, st'))
         \<and> int (length r) = 3)"
proof -
  have keeps: "\<forall>p b g m s. length (fst (cauchy_mutation_population ext0 p b g m s)) = length p"
    by (simp add: ext0_def)
  have alloc: "\<forall>a \<in> set [0, 1, 2]. a < length (sols st0)" by (simp add: st0_def)
  have member: "\<forall>cands f r. cands \<noteq> [] \<longrightarrow>
      fst (tournament_selection ext0 cands f r) \<in> fst ` set cands"
    by (simp add: ext0_def counter_tournament_member)
  have retry: "\<forall>st'. extends st0 st' \<longrightarrow>
      select_parents ext0 ga0 [0, 1, 2] ([0, 1, 2] ! 0) ([0, 1, 2] ! 0) st' \<noteq> None"
    using retry0 by simp
  have consistent: "\<forall>genes. allclose (snd (transform_genes_bounds ext0 genes
      (arrays st0 ! self_bounds ga0) (self_gammas ga0) (self_mask_log10_scale ga0)))
      (self_bounds_transformed ga0)"
    using consistent0 by blast
  from get_mutants_size [OF keeps, of ga0 "[0, 1, 2]" "PyInt 3" st0 3]
    alloc member retry consistent keys0
  have "\<exists>r st'. get_mutants ext0 ga0 [0, 1, 2] (PyInt 3) st0 = Some (Inr (r, st')) \<and> int (length r) = 3"
    by simp
  then show ?thesis by simp
qed

text \<open>
  The claim as stated fails: a population that holds one instance three times has length
  3, and the retry loop never finds two distinct parents in it.
\<close>

theorem get_mutants_same_instance_never_returns:
  "get_mutants ext0 ga0 [0, 0, 0] (PyInt 1) st0 = None"
proof -
  have "select_parents ext0 ga0 [0, 0, 0] 0 0 st0 = None"
    by (rule select_parents_degenerate) (simp_all add: ext0_def counter_tournament_member)
  then have "mutants_loop ext0 ga0 [0, 0, 0] 1 [] st0 = None"
    by (subst mutants_loop.simps) simp
  then show ?thesis by (simp add: get_mutants_def)
qed

section \<open>The engine's bounds\<close>

lemma transform_population_result:
  "transform_population ext ga vs st = Inr (ts, st') \<Longrightarrow> extends st st'"
proof (induction vs arbitrary: st ts st')
  case Nil
  then show ?case by (simp add: extends_refl)
next
  case (Cons v vs)
  from Cons.prems obtain a t st1 ts' where
    v: "v = PySol a" and t: "transform_solution ext ga a st = Inr (t, st1)"
    and rest: "transform_population ext ga vs st1 = Inr (ts', st')"
    by (auto split: pyval.splits sum.splits)
  from transform_solution_result [OF t] Cons.IH [OF rest] show ?case
    by (blast intro: extends_trans)
qed

lemma mutate_population_extends:
  assumes "mutate_population ext ga population st = Inr (r, st')"
  shows "extends st st'"
proof -
  from assms obtain elems where it: "iterate population = Inr elems"
    by (auto simp: mutate_population_def split: if_splits sum.splits)
  from assms it obtain pn st1 where t: "transform_population ext ga elems st = Inr (pn, st1)"
    by (auto simp: mutate_population_def split: if_splits sum.splits)
  obtain mutated st2 where mu: "mutate_population_transformed ext ga pn st1 = (mutated, st2)"
    by (metis prod.exhaust)
  from assms it t mu have tb: "transform_population_back ext ga mutated st2 = (r, st')"
    by (auto simp: mutate_population_def split: if_splits)
  from transform_population_result [OF t] mutate_population_transformed_result [OF mu]
    transform_population_back_result [OF tb]
  show ?thesis by (blast intro: extends_trans)
qed

lemma mutate_solution_extends:
  "mutate_solution ext ga sol st = Inr (r, st') \<Longrightarrow> extends st st'"
  by (auto simp: mutate_solution_def split: pyval.splits sum.splits if_splits
      dest: mutate_population_extends)

lemma generate_solution_extends:
  "generate_solution ext ga st = Inr (s, st') \<Longrightarrow> extends st st'"
  by (auto simp: generate_solution_def Let_def split: sum.splits
      dest!: new_solution_extends intro: extends_trans [OF extends_rng])

lemma generate_population_result:
  "generate_population ext ga n st = Inr (ss, st') \<Longrightarrow> length ss = n \<and> extends st st'"
proof (induction n arbitrary: st ss st')
  case 0
  then show ?case by (simp add: extends_refl)
next
  case (Suc n)
  from Suc.prems obtain s st1 ss' where
    g: "generate_solution ext ga st = Inr (s, st1)"
    and rest: "generate_population ext ga n st1 = Inr (ss', st')" and ss: "ss = s # ss'"
    by (auto split: sum.splits)
  from generate_solution_extends [OF g] Suc.IH [OF rest] ss show ?case
    by (auto intro: extends_trans)
qed

lemma update_population_arrays: "arrays (update_population ext population st) = arrays st"
  by (induction population arbitrary: st) simp_all

lemma get_elites_length:
  "get_elites population sz st = Inr elites \<Longrightarrow> int (length elites) = int_of sz"
  by (auto simp: get_elites_def split: if_splits)

lemma epoch_result:
  fixes ext :: "('f::linorder, 'r) external"
  assumes "epoch ext ga n_solutions n_elites population st = Some (Inr (population', st'))"
  shows "\<exists>elites mutants.
      get_elites (filter_population ext ga population (update_population ext population st))
        (PyInt n_elites) (update_population ext population st) = Inr elites
      \<and> get_mutants ext ga (filter_population ext ga population (update_population ext population st))
          (PyInt (n_solutions - n_elites)) (update_population ext population st)
          = Some (Inr (mutants, st'))
      \<and> population' = elites @ mutants"
  using assms by (auto simp: epoch_def Let_def split: sum.splits option.splits)

lemma epoch_arrays:
  fixes ext :: "('f::linorder, 'r) external"
  assumes "epoch ext ga n_solutions n_elites population st = Some (Inr (population', st'))"
  shows "arrays st' = arrays st"
proof -
  from epoch_result [OF assms] obtain mutants where
    "get_mutants ext ga (filter_population ext ga population (update_population ext population st))
          (PyInt (n_solutions - n_elites)) (update_population ext population st)
          = Some (Inr (mutants, st'))" by blast
  from get_mutants_result [OF this] have "extends (update_population ext population st) st'"
    by simp
  from extends_arrays [OF this] show ?thesis by (simp add: update_population_arrays)
qed

lemma epochs_arrays:
  fixes ext :: "('f::linorder, 'r) external"
  shows "epochs ext ga n_solutions n_elites i population st = Some (Inr (population', st'))
    \<Longrightarrow> arrays st' = arrays st"
proof (induction i arbitrary: population st)
  case 0
  then show ?case by simp
next
  case (Suc i)
  from Suc.prems obtain p1 st1 where
    e: "epoch ext ga n_solutions n_elites population st = Some (Inr (p1, st1))"
    and rest: "epochs ext ga n_solutions n_elites i p1 st1 = Some (Inr (population', st'))"
    by (auto split: option.splits sum.splits)
  from Suc.IH [OF rest] epoch_arrays [OF e] show ?case by simp
qed

lemma run_result:
  fixes ext :: "('f::linorder, 'r) external"
  assumes "run ext ga n_solutions n_epochs n_elites st = Some (Inr (population, st'))"
  shows "\<exists>initial st1. is_int n_solutions \<and> 0 \<le> int_of n_solutions \<and> is_int n_epochs
     \<and> 0 \<le> int_of n_epochs \<and> is_int n_elites \<and> 0 \<le> int_of n_elites
     \<and> int_of n_elites \<le> int_of n_solutions
     \<and> generate_population ext ga (nat (int_of n_solutions)) st = Inr (initial, st1)
     \<and> epochs ext ga (int_of n_solutions) (int_of n_elites) (nat (int_of n_epochs)) initial st1
         = Some (Inr (population, st'))"
  using assms by (auto simp: run_def split: if_splits sum.splits)

lemma run_arrays:
  fixes ext :: "('f::linorder, 'r) external"
  assumes "run ext ga n_solutions n_epochs n_elites st = Some (Inr (population, st'))"
  shows "arrays st' = arrays st"
proof -
  from run_result [OF assms] obtain initial st1 where
    g: "generate_population ext ga (nat (int_of n_solutions)) st = Inr (initial, st1)"
    and e: "epochs ext ga (int_of n_solutions) (int_of n_elites) (nat (int_of n_epochs)) initial st1
         = Some (Inr (population, st'))" by blast
  from generate_population_result [OF g] epochs_arrays [OF e] show ?thesis
    by (simp add: extends_arrays)
qed

text \<open>
  Claim C10. No operation of the engine changes an array of the store, so the bounds the
  engine holds (and with them the cached transformed bounds, which are a value of the
  engine) stay as they were constructed: \<^verbatim>\<open>generate_solution\<close>,
  \<^verbatim>\<open>generate_population\<close>, \<^verbatim>\<open>mutate_population\<close>, \<^verbatim>\<open>mutate_solution\<close>, \<^verbatim>\<open>get_mutants\<close>,
  \<^verbatim>\<open>update_population\<close> and \<^verbatim>\<open>run\<close> leave every array as it is (\<^verbatim>\<open>get_elites\<close> and
  \<^verbatim>\<open>filter_population\<close> return no store at all). The accessor \<^verbatim>\<open>bounds\<close> returns a new
  array with the same rows, at an address other than the engine's, and a write to the
  returned array leaves the engine's array unchanged.
\<close>

theorem bounds_unchanged:
  fixes ext :: "('f::linorder, 'r) external"
  assumes "self_bounds ga < length (arrays st)"
  shows "(generate_solution ext ga st = Inr (s, st1) \<longrightarrow> arrays st1 = arrays st)
     \<and> (generate_population ext ga n st = Inr (ss, st2) \<longrightarrow> arrays st2 = arrays st)
     \<and> (mutate_population ext ga v st = Inr (ms, st3) \<longrightarrow> arrays st3 = arrays st)
     \<and> (mutate_solution ext ga v' st = Inr (m, st4) \<longrightarrow> arrays st4 = arrays st)
     \<and> (get_mutants ext ga population sz st = Some (Inr (mu, st5)) \<longrightarrow> arrays st5 = arrays st)
     \<and> arrays (update_population ext population' st) = arrays st
     \<and> (run ext ga n_solutions n_epochs n_elites st = Some (Inr (final, st6)) \<longrightarrow>
          arrays st6 = arrays st)
     \<and> (\<exists>a st'. bounds ga st = (a, st') \<and> a \<noteq> self_bounds ga
          \<and> arrays st' ! a = arrays st ! self_bounds ga
          \<and> arrays st' ! self_bounds ga = arrays st ! self_bounds ga
          \<and> (\<forall>i row. arrays (array_setitem a i row st') ! self_bounds ga
                = arrays st ! self_bounds ga))"
proof (intro conjI impI)
  show "\<exists>a st'. bounds ga st = (a, st') \<and> a \<noteq> self_bounds ga
          \<and> arrays st' ! a = arrays st ! self_bounds ga
          \<and> arrays st' ! self_bounds ga = arrays st ! self_bounds ga
          \<and> (\<forall>i row. arrays (array_setitem a i row st') ! self_bounds ga
                = arrays st ! self_bounds ga)"
    using assms by (simp add: bounds_def array_setitem_def nth_append)
qed (auto simp: update_population_arrays
      dest: generate_solution_extends generate_population_result mutate_population_extends
        mutate_solution_extends get_mutants_result run_arrays extends_arrays)

theorem bounds_unchanged_witness:
  "(\<exists>s st1. generate_solution ext0 ga1 st0 = Inr (s, st1) \<and> arrays st1 = arrays st0)
   \<and> (\<exists>ss st2. generate_population ext0 ga1 2 st0 = Inr (ss, st2) \<and> arrays st2 = arrays st0)
   \<and> (\<exists>ms st3. mutate_population ext0 ga1 (PyList [PySol 0, PySol 2]) st0 = Inr (ms, st3)
         \<and> arrays st3 = arrays st0)
   \<and> (\<exists>m st4. mutate_solution ext0 ga1 (PySol 1) st0 = Inr (m, st4) \<and> arrays st4 = arrays st0)
   \<and> (\<exists>mu st5. get_mutants ext0 ga1 [0, 1, 2] (PyInt 2) st0 = Some (Inr (mu, st5))
         \<and> arrays st5 = arrays st0)
   \<and> (\<exists>final st6. run ext0 ga1 (PyInt 3) (PyInt 1) (PyInt 1) st0 = Some (Inr (final, st6))
         \<and> arrays st6 = arrays st0)
   \<and> (\<exists>a st'. bounds ga1 st0 = (a, st') \<and> a \<noteq> self_bounds ga1
         \<and> arrays st' ! a = [(0, 10), (1, 100)]
         \<and> arrays (array_setitem a 0 (5, 6) st') ! a = [(5, 6), (1, 100)]
         \<and> arrays (array_setitem a 0 (5, 6) st') ! self_bounds ga1 = [(0, 10), (1, 100)])"
proof -
  have wf: "self_bounds ga1 < length (arrays st0)" by (simp add: ga1_def ga0_def st0_def)
  have "case generate_solution ext0 ga1 st0 of Inl e \<Rightarrow> False | Inr r \<Rightarrow> True" by code_simp
  then obtain s st1 where r1: "generate_solution ext0 ga1 st0 = Inr (s, st1)"
    by (auto split: sum.splits)
  have "case generate_population ext0 ga1 2 st0 of Inl e \<Rightarrow> False | Inr r \<Rightarrow> True" by code_simp
  then obtain ss st2 where r2: "generate_population ext0 ga1 2 st0 = Inr (ss, st2)"
    by (auto split: sum.splits)
  have "case mutate_population ext0 ga1 (PyList [PySol 0, PySol 2]) st0 of
          Inl e \<Rightarrow> False | Inr r \<Rightarrow> True" by code_simp
  then obtain ms st3 where
    r3: "mutate_population ext0 ga1 (PyList [PySol 0, PySol 2]) st0 = Inr (ms, st3)"
    by (auto split: sum.splits)
  have "case mutate_solution ext0 ga1 (PySol 1) st0 of Inl e \<Rightarrow> False | Inr r \<Rightarrow> True"
    by code_simp
  then obtain m st4 where r4: "mutate_solution ext0 ga1 (PySol 1) st0 = Inr (m, st4)"
    by (auto split: sum.splits)
  have "case get_mutants ext0 ga1 [0, 1, 2] (PyInt 2) st0 of
          Some (Inr r) \<Rightarrow> True | _ \<Rightarrow> False" by code_simp
  then obtain mu st5 where r5: "get_mutants ext0 ga1 [0, 1, 2] (PyInt 2) st0 = Some (Inr (mu, st5))"
    by (auto split: option.splits sum.splits)
  have "case run ext0 ga1 (PyInt 3) (PyInt 1) (PyInt 1) st0 of
          Some (Inr r) \<Rightarrow> True | _ \<Rightarrow> False" by code_simp
  then obtain final st6 where
    r6: "run ext0 ga1 (PyInt 3) (PyInt 1) (PyInt 1) st0 = Some (Inr (final, st6))"
    by (auto split: option.splits sum.splits)
  note inst = bounds_unchanged [OF wf, where ext = ext0 and s = s and ?st1.0 = st1
      and n = 2 and ss = ss and ?st2.0 = st2
      and v = "PyList [PySol 0, PySol 2]" and ms = ms and ?st3.0 = st3
      and v' = "PySol 1" and m = m and ?st4.0 = st4
      and population = "[0, 1, 2]" and sz = "PyInt 2" and mu = mu and ?st5.0 = st5
      and n_solutions = "PyInt 3" and n_epochs = "PyInt 1" and n_elites = "PyInt 1"
      and final = final and ?st6.0 = st6]
  from inst r1 r2 r3 r4 r5 r6 have
    "arrays st1 = arrays st0" "arrays st2 = arrays st0" "arrays st3 = arrays st0"
    "arrays st4 = arrays st0" "arrays st5 = arrays st0" "arrays st6 = arrays st0"
    by simp_all
  moreover from inst have "\<exists>a st'. bounds ga1 st0 = (a, st') \<and> a \<noteq> self_bounds ga1
         \<and> arrays st' ! a = [(0, 10), (1, 100)]
         \<and> arrays (array_setitem a 0 (5, 6) st') ! a = [(5, 6), (1, 100)]
         \<and> arrays (array_setitem a 0 (5, 6) st') ! self_bounds ga1 = [(0, 10), (1, 100)]"
    by (auto simp: ga1_def ga0_def st0_def bounds_def array_setitem_def)
  ultimately show ?thesis using r1 r2 r3 r4 r5 r6 by blast
qed

section \<open>The generations of \<^verbatim>\<open>run\<close>\<close>

lemma get_elites_best:
  fixes st :: "('f::linorder, 'r) state"
  assumes "get_elites population sz st = Inr elites"
  shows "int (length elites) = int_of sz
     \<and> sorted (map (\<lambda>a. sol_y (sols st ! a)) elites)
     \<and> mset elites \<subseteq># mset population
     \<and> (\<forall>a \<in> set elites. \<forall>b \<in># mset population - mset elites.
           sol_y (sols st ! a) \<le> sol_y (sols st ! b))"
proof -
  let ?f = "\<lambda>a. sol_y (sols st ! a)"
  from assms have r: "0 \<le> int_of sz" "int_of sz \<le> int (length population)"
    and e: "elites = take (nat (int_of sz)) (sort_key ?f population)"
    by (auto simp: get_elites_def split: if_splits)
  from r have le: "nat (int_of sz) \<le> length population" by linarith
  from elites_of_sorted [OF le, of ?f] e r(1) show ?thesis by simp
qed

lemma epoch_lengths:
  fixes ext :: "('f::linorder, 'r) external"
  assumes keeps: "\<forall>p b g m s. length (fst (cauchy_mutation_population ext p b g m s)) = length p"
    and ep: "epoch ext ga n_solutions n_elites population st = Some (Inr (population', st'))"
  shows "let st_u = update_population ext population st;
             survivors = filter_population ext ga population st_u
         in \<exists>elites mutants.
              get_elites survivors (PyInt n_elites) st_u = Inr elites
              \<and> int (length elites) = n_elites
              \<and> sorted (map (\<lambda>a. sol_y (sols st_u ! a)) elites)
              \<and> mset elites \<subseteq># mset survivors
              \<and> (\<forall>a \<in> set elites. \<forall>b \<in># mset survivors - mset elites.
                    sol_y (sols st_u ! a) \<le> sol_y (sols st_u ! b))
              \<and> get_mutants ext ga survivors (PyInt (n_solutions - n_elites)) st_u
                  = Some (Inr (mutants, st'))
              \<and> int (length mutants) = n_solutions - n_elites
              \<and> population' = elites @ mutants"
proof -
  let ?st_u = "update_population ext population st"
  let ?survivors = "filter_population ext ga population ?st_u"
  from epoch_result [OF ep] obtain elites mutants where
    el: "get_elites ?survivors (PyInt n_elites) ?st_u = Inr elites"
    and mu: "get_mutants ext ga ?survivors (PyInt (n_solutions - n_elites)) ?st_u
          = Some (Inr (mutants, st'))"
    and p: "population' = elites @ mutants" by blast
  from get_mutants_result [OF mu] keeps
  have "int (length mutants) = n_solutions - n_elites" by simp
  with get_elites_best [OF el] el mu p show ?thesis unfolding Let_def by auto
qed

lemma epochs_generations:
  fixes ext :: "('f::linorder, 'r) external"
  assumes keeps: "\<forall>p b g m s. length (fst (cauchy_mutation_population ext p b g m s)) = length p"
  shows "int (length population) = n_solutions \<Longrightarrow>
    epochs ext ga n_solutions n_elites i population st = Some (Inr (population', st')) \<Longrightarrow>
    \<exists>gens. length gens = Suc i \<and> hd gens = (population, st) \<and> last gens = (population', st')
      \<and> (\<forall>g \<in> set gens. int (length (fst g)) = n_solutions)
      \<and> (\<forall>j < i.
           let st_u = update_population ext (fst (gens ! j)) (snd (gens ! j));
               survivors = filter_population ext ga (fst (gens ! j)) st_u
           in \<exists>elites mutants.
                get_elites survivors (PyInt n_elites) st_u = Inr elites
                \<and> int (length elites) = n_elites
                \<and> sorted (map (\<lambda>a. sol_y (sols st_u ! a)) elites)
                \<and> mset elites \<subseteq># mset survivors
                \<and> (\<forall>a \<in> set elites. \<forall>b \<in># mset survivors - mset elites.
                      sol_y (sols st_u ! a) \<le> sol_y (sols st_u ! b))
                \<and> get_mutants ext ga survivors (PyInt (n_solutions - n_elites)) st_u
                    = Some (Inr (mutants, snd (gens ! Suc j)))
                \<and> int (length mutants) = n_solutions - n_elites
                \<and> fst (gens ! Suc j) = elites @ mutants)"
proof (induction i arbitrary: population st)
  case 0
  then show ?case by (intro exI [of _ "[(population, st)]"]) simp
next
  case (Suc i)
  from Suc.prems(2) obtain p1 st1 where
    e: "epoch ext ga n_solutions n_elites population st = Some (Inr (p1, st1))"
    and rest: "epochs ext ga n_solutions n_elites i p1 st1 = Some (Inr (population', st'))"
    by (auto split: option.splits sum.splits)
  note step = epoch_lengths [OF keeps e]
  then obtain elites mutants where
    "int (length elites) = n_elites" "int (length mutants) = n_solutions - n_elites"
    "p1 = elites @ mutants" unfolding Let_def by blast
  then have len1: "int (length p1) = n_solutions" by simp
  from Suc.IH [OF len1 rest] obtain gens where
    g: "length gens = Suc i" "hd gens = (p1, st1)" "last gens = (population', st')"
      "\<forall>g \<in> set gens. int (length (fst g)) = n_solutions"
    and steps: "\<forall>j < i.
           let st_u = update_population ext (fst (gens ! j)) (snd (gens ! j));
               survivors = filter_population ext ga (fst (gens ! j)) st_u
           in \<exists>elites mutants.
                get_elites survivors (PyInt n_elites) st_u = Inr elites
                \<and> int (length elites) = n_elites
                \<and> sorted (map (\<lambda>a. sol_y (sols st_u ! a)) elites)
                \<and> mset elites \<subseteq># mset survivors
                \<and> (\<forall>a \<in> set elites. \<forall>b \<in># mset survivors - mset elites.
                      sol_y (sols st_u ! a) \<le> sol_y (sols st_u ! b))
                \<and> get_mutants ext ga survivors (PyInt (n_solutions - n_elites)) st_u
                    = Some (Inr (mutants, snd (gens ! Suc j)))
                \<and> int (length mutants) = n_solutions - n_elites
                \<and> fst (gens ! Suc j) = elites @ mutants" by blast
  from g(1) have ne: "gens \<noteq> []" by auto
  with g(2) have first: "gens ! 0 = (p1, st1)" by (simp add: hd_conv_nth)
  let ?gens = "(population, st) # gens"
  have "\<forall>j < Suc i.
           let st_u = update_population ext (fst (?gens ! j)) (snd (?gens ! j));
               survivors = filter_population ext ga (fst (?gens ! j)) st_u
           in \<exists>elites mutants.
                get_elites survivors (PyInt n_elites) st_u = Inr elites
                \<and> int (length elites) = n_elites
                \<and> sorted (map (\<lambda>a. sol_y (sols st_u ! a)) elites)
                \<and> mset elites \<subseteq># mset survivors
                \<and> (\<forall>a \<in> set elites. \<forall>b \<in># mset survivors - mset elites.
                      sol_y (sols st_u ! a) \<le> sol_y (sols st_u ! b))
                \<and> get_mutants ext ga survivors (PyInt (n_solutions - n_elites)) st_u
                    = Some (Inr (mutants, snd (?gens ! Suc j)))
                \<and> int (length mutants) = n_solutions - n_elites
                \<and> fst (?gens ! Suc j) = elites @ mutants"
  proof (intro allI impI)
    fix j assume "j < Suc i"
    show "let st_u = update_population ext (fst (?gens ! j)) (snd (?gens ! j));
               survivors = filter_population ext ga (fst (?gens ! j)) st_u
           in \<exists>elites mutants.
                get_elites survivors (PyInt n_elites) st_u = Inr elites
                \<and> int (length elites) = n_elites
                \<and> sorted (map (\<lambda>a. sol_y (sols st_u ! a)) elites)
                \<and> mset elites \<subseteq># mset survivors
                \<and> (\<forall>a \<in> set elites. \<forall>b \<in># mset survivors - mset elites.
                      sol_y (sols st_u ! a) \<le> sol_y (sols st_u ! b))
                \<and> get_mutants ext ga survivors (PyInt (n_solutions - n_elites)) st_u
                    = Some (Inr (mutants, snd (?gens ! Suc j)))
                \<and> int (length mutants) = n_solutions - n_elites
                \<and> fst (?gens ! Suc j) = elites @ mutants"
    proof (cases j)
      case 0
      with step first show ?thesis by (simp add: Let_def)
    next
      case (Suc j')
      with \<open>j < Suc i\<close> have "j' < i" by simp
      with steps Suc show ?thesis by simp
    qed
  qed
  moreover have "length ?gens = Suc (Suc i)" using g(1) by simp
  moreover have "hd ?gens = (population, st)" by simp
  moreover have "last ?gens = (population', st')" using g(3) ne by simp
  moreover have "\<forall>g \<in> set ?gens. int (length (fst g)) = n_solutions"
    using g(4) Suc.prems(1) by simp
  ultimately show ?case by blast
qed

text \<open>
  Claim C2. Let the mutation operator return as many individuals as it is given. When
  \<^verbatim>\<open>run(n_solutions, n_epochs, n_elites)\<close> returns, there is a sequence of
  \<open>n_epochs + 1\<close> generations, each of exactly \<open>n_solutions\<close> individuals: the first is the
  generated population, the last is the returned population together with the returned
  store (nothing is evaluated after the last recombination), and each generation gives the
  next in one pass: update, filter, then the \<open>n_elites\<close> best survivors (sorted, none above a
  survivor left out) followed by \<open>n_solutions - n_elites\<close> mutants made from the survivors.
\<close>

theorem run_generations:
  fixes ext :: "('f::linorder, 'r) external"
  assumes keeps: "\<forall>p b g m s. length (fst (cauchy_mutation_population ext p b g m s)) = length p"
    and ret: "run ext ga n_solutions n_epochs n_elites st = Some (Inr (population, st'))"
  shows "\<exists>gens. length gens = Suc (nat (int_of n_epochs))
      \<and> generate_population ext ga (nat (int_of n_solutions)) st = Inr (hd gens)
      \<and> last gens = (population, st')
      \<and> (\<forall>g \<in> set gens. int (length (fst g)) = int_of n_solutions)
      \<and> (\<forall>j < nat (int_of n_epochs).
           let st_u = update_population ext (fst (gens ! j)) (snd (gens ! j));
               survivors = filter_population ext ga (fst (gens ! j)) st_u
           in \<exists>elites mutants.
                get_elites survivors (PyInt (int_of n_elites)) st_u = Inr elites
                \<and> int (length elites) = int_of n_elites
                \<and> sorted (map (\<lambda>a. sol_y (sols st_u ! a)) elites)
                \<and> mset elites \<subseteq># mset survivors
                \<and> (\<forall>a \<in> set elites. \<forall>b \<in># mset survivors - mset elites.
                      sol_y (sols st_u ! a) \<le> sol_y (sols st_u ! b))
                \<and> get_mutants ext ga survivors (PyInt (int_of n_solutions - int_of n_elites)) st_u
                    = Some (Inr (mutants, snd (gens ! Suc j)))
                \<and> int (length mutants) = int_of n_solutions - int_of n_elites
                \<and> fst (gens ! Suc j) = elites @ mutants)"
proof -
  from run_result [OF ret] obtain initial st1 where
    pre: "0 \<le> int_of n_solutions"
    and g: "generate_population ext ga (nat (int_of n_solutions)) st = Inr (initial, st1)"
    and e: "epochs ext ga (int_of n_solutions) (int_of n_elites) (nat (int_of n_epochs)) initial st1
         = Some (Inr (population, st'))" by blast
  from generate_population_result [OF g] pre have "int (length initial) = int_of n_solutions"
    by simp
  from epochs_generations [OF keeps this e] g show ?thesis by metis
qed

theorem run_generations_witness:
  "\<exists>population st' gens.
     run ext0 ga1 (PyInt 3) (PyInt 2) (PyInt 1) st0 = Some (Inr (population, st'))
     \<and> length gens = 3 \<and> last gens = (population, st') \<and> length population = 3"
proof -
  have "(case run ext0 ga1 (PyInt 3) (PyInt 2) (PyInt 1) st0 of
          Some (Inr (p, s)) \<Rightarrow> True | _ \<Rightarrow> False)"
    by code_simp
  then obtain population st' where
    ret: "run ext0 ga1 (PyInt 3) (PyInt 2) (PyInt 1) st0 = Some (Inr (population, st'))"
    by (auto split: option.splits sum.splits)
  have keeps: "\<forall>p b g m s. length (fst (cauchy_mutation_population ext0 p b g m s)) = length p"
    by (simp add: ext0_def)
  from run_generations [OF keeps ret] obtain gens where
    "length gens = 3" "last gens = (population, st')"
    "\<forall>g \<in> set gens. int (length (fst g)) = 3" by auto
  moreover from this have "length population = 3"
    by (metis fst_conv last_in_set length_0_conv nat_int numeral_eq_Suc old.nat.distinct(1) of_nat_numeral)
  ultimately show ?thesis using ret by blast
qed

section \<open>The payload of the children\<close>

text \<open>
  What a child holds under a transmitted key is what \<^verbatim>\<open>copy.deepcopy\<close> gives for the
  object the parent holds there: an object with the same contents, which is the parent's
  own object when the value is immutable and a newly allocated one otherwise.
\<close>

lemma transmit_solution_data_copies:
  assumes "transmit_solution_data keys p c st = Inr st'"
    and "p \<noteq> c" and "c < length (sols st)"
    and "\<forall>cell \<in> snd ` set (sol_data (sols st ! p)). cell < length (cells st)"
  shows "(\<forall>key \<in> set keys. \<exists>c0 c'.
            map_of (sol_data (sols st ! p)) key = Some c0
            \<and> map_of (sol_data (sols st' ! c)) key = Some c'
            \<and> c' < length (cells st')
            \<and> cells st' ! c' = cells st ! c0
            \<and> (if immutable (cells st ! c0) then c' = c0 else length (cells st) \<le> c'))
       \<and> (\<forall>key. key \<notin> set keys \<longrightarrow>
            map_of (sol_data (sols st' ! c)) key = map_of (sol_data (sols st ! c)) key)"
  using assms
proof (induction keys arbitrary: st)
  case Nil
  then show ?case by simp
next
  case (Cons key keys)
  from Cons.prems(1) obtain c0 where c0: "map_of (sol_data (sols st ! p)) key = Some c0"
    by (auto split: option.splits)
  from c0 have "c0 \<in> snd ` set (sol_data (sols st ! p))"
    by (metis image_eqI map_of_SomeD snd_conv)
  with Cons.prems(4) have c0_lt: "c0 < length (cells st)" by blast
  obtain c1 st1 where d: "deepcopy_value c0 st = (c1, st1)" by (cases "deepcopy_value c0 st")
  note dv = deepcopy_value_result [OF d]
  from dv(6) [OF c0_lt] have c1_lt: "c1 < length (cells st1)"
    and c1_eq: "cells st1 ! c1 = cells st ! c0" by simp_all
  from dv(7) have c1_if: "if immutable (cells st ! c0) then c1 = c0 else length (cells st) \<le> c1"
    by (simp split: if_splits)
  let ?st2 = "setitem c key c1 st1"
  from Cons.prems(1) c0 d have rest: "transmit_solution_data keys p c ?st2 = Inr st'"
    by simp
  have sp: "sols ?st2 ! p = sols st ! p" using Cons.prems(2) dv(1) by (simp add: setitem_def)
  have sc: "sol_data (sols ?st2 ! c) = AList.update key c1 (sol_data (sols st ! c))"
    using Cons.prems(3) dv(1) by (simp add: setitem_def)
  have len: "length (sols ?st2) = length (sols st)" using dv(1) by (simp add: setitem_def)
  have cells2: "cells ?st2 = cells st1" by (simp add: setitem_def)
  have wf2: "\<forall>cell \<in> snd ` set (sol_data (sols ?st2 ! p)). cell < length (cells ?st2)"
    using Cons.prems(4) sp cells2 dv(4) by fastforce
  from Cons.prems(3) len have c2: "c < length (sols ?st2)" by simp
  from Cons.IH [OF rest Cons.prems(2) c2 wf2]
  have IH1: "\<forall>k \<in> set keys. \<exists>c0 c'.
            map_of (sol_data (sols ?st2 ! p)) k = Some c0
            \<and> map_of (sol_data (sols st' ! c)) k = Some c'
            \<and> c' < length (cells st')
            \<and> cells st' ! c' = cells ?st2 ! c0
            \<and> (if immutable (cells ?st2 ! c0) then c' = c0 else length (cells ?st2) \<le> c')"
    and IH2: "\<forall>k. k \<notin> set keys \<longrightarrow>
            map_of (sol_data (sols st' ! c)) k = map_of (sol_data (sols ?st2 ! c)) k"
    by blast+
  from transmit_solution_data_result [OF rest]
  have grow: "length (cells ?st2) \<le> length (cells st')"
    and keep: "\<forall>cell < length (cells ?st2). cells st' ! cell = cells ?st2 ! cell"
    by simp_all
  have "\<exists>c0 c'. map_of (sol_data (sols st ! p)) k = Some c0
            \<and> map_of (sol_data (sols st' ! c)) k = Some c'
            \<and> c' < length (cells st')
            \<and> cells st' ! c' = cells st ! c0
            \<and> (if immutable (cells st ! c0) then c' = c0 else length (cells st) \<le> c')"
    if k: "k \<in> set (key # keys)" for k
  proof (cases "k \<in> set keys")
    case True
    with IH1 obtain d0 d' where e:
      "map_of (sol_data (sols ?st2 ! p)) k = Some d0"
      "map_of (sol_data (sols st' ! c)) k = Some d'"
      "d' < length (cells st')"
      "cells st' ! d' = cells ?st2 ! d0"
      "if immutable (cells ?st2 ! d0) then d' = d0 else length (cells ?st2) \<le> d'" by blast
    from e(1) sp have "d0 \<in> snd ` set (sol_data (sols st ! p))"
      by (metis image_eqI map_of_SomeD snd_conv)
    with Cons.prems(4) have "d0 < length (cells st)" by blast
    with dv(5) cells2 have same: "cells ?st2 ! d0 = cells st ! d0" by simp
    from e(5) same cells2 dv(4)
    have "if immutable (cells st ! d0) then d' = d0 else length (cells st) \<le> d'"
      by (simp split: if_splits)
    with e(1,2,3,4) sp same show ?thesis by auto
  next
    case False
    with k have kk: "k = key" by simp
    from False IH2 sc kk have "map_of (sol_data (sols st' ! c)) k = Some c1"
      by (simp add: update_conv')
    moreover from grow cells2 c1_lt have "c1 < length (cells st')" by simp
    moreover from keep cells2 c1_lt c1_eq have "cells st' ! c1 = cells st ! c0" by simp
    ultimately show ?thesis using c0 kk c1_if by auto
  qed
  moreover have "map_of (sol_data (sols st' ! c)) k = map_of (sol_data (sols st ! c)) k"
    if "k \<notin> set (key # keys)" for k
    using that IH2 sc by (simp add: update_conv')
  ultimately show ?case by blast
qed

lemma make_child_copies:
  assumes m: "make_child ext ga t genes st = Inr (child, st')"
    and t: "t < length (sols st)"
    and wf: "\<forall>cell \<in> snd ` set (sol_data (sols st ! t)). cell < length (cells st)"
  shows "\<forall>key \<in> set (self_keys_data_transmit ga). \<exists>c0 c'.
            map_of (sol_data (sols st ! t)) key = Some c0
            \<and> map_of (sol_data (sols st' ! child)) key = Some c'
            \<and> c' < length (cells st')
            \<and> cells st' ! c' = cells st ! c0
            \<and> (if immutable (cells st ! c0) then c' = c0 else length (cells st) \<le> c')"
proof -
  let ?st1 = "st\<lparr>sols := sols st @ [SolutionSubclass ext genes []]\<rparr>"
  from m have child: "child = length (sols st)"
    and tr: "transmit_solution_data (self_keys_data_transmit ga) t child ?st1 = Inr st'"
    by (auto simp: make_child_def new_solution_def split: sum.splits)
  from t child have ne: "t \<noteq> child" and lt: "child < length (sols ?st1)" by simp_all
  from t wf have wf1: "\<forall>cell \<in> snd ` set (sol_data (sols ?st1 ! t)). cell < length (cells ?st1)"
    by (simp add: nth_append)
  from transmit_solution_data_copies [OF tr ne lt wf1]
  have "\<forall>key \<in> set (self_keys_data_transmit ga). \<exists>c0 c'.
            map_of (sol_data (sols ?st1 ! t)) key = Some c0
            \<and> map_of (sol_data (sols st' ! child)) key = Some c'
            \<and> c' < length (cells st')
            \<and> cells st' ! c' = cells ?st1 ! c0
            \<and> (if immutable (cells ?st1 ! c0) then c' = c0 else length (cells ?st1) \<le> c')"
    by blast
  moreover have "sols ?st1 ! t = sols st ! t" using t by (simp add: nth_append)
  moreover have "cells ?st1 = cells st" by simp
  ultimately show ?thesis by (simp only:)
qed

lemma deepcopy_data_sols: "deepcopy_data memo kvs st = (d, st') \<Longrightarrow> sols st' = sols st"
proof (induction memo kvs st arbitrary: d st' rule: deepcopy_data.induct)
  case (1 memo st)
  then show ?case by simp
next
  case (2 memo k c kvs st)
  show ?case
  proof (cases "map_of memo c")
    case (Some c')
    obtain r st1 where r: "deepcopy_data memo kvs st = (r, st1)" by (metis prod.exhaust)
    from "2.prems" Some r have "st' = st1" by simp
    with "2.IH"(2) [OF Some r] show ?thesis by simp
  next
    case None
    obtain c' st1 where c': "deepcopy_value c st = (c', st1)" by (metis prod.exhaust)
    let ?memo = "if immutable (cells st ! c) then memo else (c, c') # memo"
    obtain r st2 where r: "deepcopy_data ?memo kvs st1 = (r, st2)"
      by (metis prod.exhaust)
    from "2.prems" None c' r have "st' = st2" by simp
    with "2.IH"(1) [OF None c' [symmetric] refl r] deepcopy_value_result(1) [OF c']
    show ?thesis by simp
  qed
qed

text \<open>
  The memo of a deep copy holds pairs of a mutable object and its new copy only.
\<close>

lemma deepcopy_data_copies:
  assumes "deepcopy_data memo kvs st = (d, st')"
    and "\<forall>(c, c') \<in> set memo. c < n \<and> n \<le> c' \<and> c' < length (cells st)
            \<and> cells st ! c' = cells st ! c \<and> \<not> immutable (cells st ! c)"
    and "\<forall>c \<in> snd ` set kvs. c < n" and "n \<le> length (cells st)"
  shows "map fst d = map fst kvs
     \<and> (\<forall>i < length kvs. snd (d ! i) < length (cells st')
          \<and> cells st' ! snd (d ! i) = cells st ! snd (kvs ! i)
          \<and> (if immutable (cells st ! snd (kvs ! i)) then snd (d ! i) = snd (kvs ! i)
              else n \<le> snd (d ! i)))"
  using assms
proof (induction memo kvs st arbitrary: d st' rule: deepcopy_data.induct)
  case (1 memo st)
  then show ?case by simp
next
  case (2 memo k c kvs st)
  from "2.prems"(3) have cn: "c < n" and wf_rest: "\<forall>c \<in> snd ` set kvs. c < n" by simp_all
  from cn "2.prems"(4) have c_lt: "c < length (cells st)" by simp
  show ?case
  proof (cases "map_of memo c")
    case (Some c')
    obtain r st1 where r: "deepcopy_data memo kvs st = (r, st1)" by (metis prod.exhaust)
    from "2.prems"(1) Some r have d: "d = (k, c') # r" and st: "st' = st1" by simp_all
    from "2.IH"(2) [OF Some r "2.prems"(2) wf_rest "2.prems"(4)]
    have tail: "map fst r = map fst kvs"
      "\<forall>i < length kvs. snd (r ! i) < length (cells st1)
          \<and> cells st1 ! snd (r ! i) = cells st ! snd (kvs ! i)
          \<and> (if immutable (cells st ! snd (kvs ! i)) then snd (r ! i) = snd (kvs ! i)
              else n \<le> snd (r ! i))" by simp_all
    from Some have "(c, c') \<in> set memo" by (rule map_of_SomeD)
    with "2.prems"(2) have m: "n \<le> c'" "c' < length (cells st)" "cells st ! c' = cells st ! c"
      "\<not> immutable (cells st ! c)"
      by auto
    from deepcopy_data_extends [OF r] m have "c' < length (cells st1)" "cells st1 ! c' = cells st ! c"
      by (simp_all add: extends_def)
    with m(1,4) have head: "c' < length (cells st1) \<and> cells st1 ! c' = cells st ! c
        \<and> (if immutable (cells st ! c) then c' = c else n \<le> c')"
      by simp
    show ?thesis
    proof (intro conjI allI impI)
      show "map fst d = map fst ((k, c) # kvs)" using d tail(1) by simp
    next
      fix i assume "i < length ((k, c) # kvs)"
      then show "snd (d ! i) < length (cells st')"
        "cells st' ! snd (d ! i) = cells st ! snd (((k, c) # kvs) ! i)"
        "if immutable (cells st ! snd (((k, c) # kvs) ! i))
         then snd (d ! i) = snd (((k, c) # kvs) ! i) else n \<le> snd (d ! i)"
        using d st head tail(2) by (cases i; simp)+
    qed
  next
    case None
    obtain c' st1 where c': "deepcopy_value c st = (c', st1)" by (metis prod.exhaust)
    note dv = deepcopy_value_result [OF c']
    let ?memo = "if immutable (cells st ! c) then memo else (c, c') # memo"
    obtain r st2 where r: "deepcopy_data ?memo kvs st1 = (r, st2)"
      by (metis prod.exhaust)
    from "2.prems"(1) None c' r have d: "d = (k, c') # r" and st: "st' = st2" by simp_all
    from dv(6) [OF c_lt] have c'_lt: "c' < length (cells st1)"
      and c'_eq: "cells st1 ! c' = cells st ! c" by simp_all
    have same: "cells st1 ! a = cells st ! a" if "a < n" for a
      using that dv(5) "2.prems"(4) by simp
    have inv1: "\<forall>(a, a') \<in> set ?memo.
        a < n \<and> n \<le> a' \<and> a' < length (cells st1) \<and> cells st1 ! a' = cells st1 ! a
        \<and> \<not> immutable (cells st1 ! a)"
    proof (clarify)
      fix a a' assume mem: "(a, a') \<in> set ?memo"
      show "a < n \<and> n \<le> a' \<and> a' < length (cells st1) \<and> cells st1 ! a' = cells st1 ! a
        \<and> \<not> immutable (cells st1 ! a)"
      proof (cases "(a, a') \<in> set memo")
        case True
        with "2.prems"(2) have o: "a < n" "n \<le> a'" "a' < length (cells st)"
          "cells st ! a' = cells st ! a" "\<not> immutable (cells st ! a)" by auto
        from o(3) dv(4,5) have "a' < length (cells st1)" "cells st1 ! a' = cells st ! a'" by simp_all
        with o same [OF o(1)] show ?thesis by simp
      next
        case False
        with mem have ni: "\<not> immutable (cells st ! c)" and aa: "a = c" "a' = c'"
          by (auto split: if_splits)
        from ni dv(7) have "c' = length (cells st)" by simp
        with aa cn "2.prems"(4) c'_lt c'_eq same [OF cn] ni show ?thesis by simp
      qed
    qed
    have n1: "n \<le> length (cells st1)" using "2.prems"(4) dv(4) by simp
    from "2.IH"(1) [OF None c' [symmetric] refl r inv1 wf_rest n1]
    have tail: "map fst r = map fst kvs"
      "\<forall>i < length kvs. snd (r ! i) < length (cells st2)
          \<and> cells st2 ! snd (r ! i) = cells st1 ! snd (kvs ! i)
          \<and> (if immutable (cells st1 ! snd (kvs ! i)) then snd (r ! i) = snd (kvs ! i)
              else n \<le> snd (r ! i))" by simp_all
    have tail': "\<forall>i < length kvs. snd (r ! i) < length (cells st2)
          \<and> cells st2 ! snd (r ! i) = cells st ! snd (kvs ! i)
          \<and> (if immutable (cells st ! snd (kvs ! i)) then snd (r ! i) = snd (kvs ! i)
              else n \<le> snd (r ! i))"
    proof (intro allI impI)
      fix i assume i: "i < length kvs"
      then have "snd (kvs ! i) \<in> snd ` set kvs" by simp
      with wf_rest have "snd (kvs ! i) < n" by blast
      from same [OF this] tail(2) i show "snd (r ! i) < length (cells st2)
          \<and> cells st2 ! snd (r ! i) = cells st ! snd (kvs ! i)
          \<and> (if immutable (cells st ! snd (kvs ! i)) then snd (r ! i) = snd (kvs ! i)
              else n \<le> snd (r ! i))"
        by simp
    qed
    from deepcopy_data_extends [OF r] c'_lt c'_eq
    have h1: "c' < length (cells st2)" "cells st2 ! c' = cells st ! c"
      by (simp_all add: extends_def)
    from dv(7) "2.prems"(4) have h2: "if immutable (cells st ! c) then c' = c else n \<le> c'"
      by (simp split: if_splits)
    from h1 h2 have head: "c' < length (cells st2) \<and> cells st2 ! c' = cells st ! c
        \<and> (if immutable (cells st ! c) then c' = c else n \<le> c')"
      by simp
    show ?thesis
    proof (intro conjI allI impI)
      show "map fst d = map fst ((k, c) # kvs)" using d tail(1) by simp
    next
      fix i assume "i < length ((k, c) # kvs)"
      then show "snd (d ! i) < length (cells st')"
        "cells st' ! snd (d ! i) = cells st ! snd (((k, c) # kvs) ! i)"
        "if immutable (cells st ! snd (((k, c) # kvs) ! i))
         then snd (d ! i) = snd (((k, c) # kvs) ! i) else n \<le> snd (d ! i)"
        using d st head tail' by (cases i; simp)+
    qed
  qed
qed

lemma deepcopy_solution_copies:
  assumes dc: "deepcopy_solution a st = (b, st')"
    and wf: "\<forall>c \<in> snd ` set (sol_data (sols st ! a)). c < length (cells st)"
  shows "b = length (sols st)" and "length (sols st') = Suc (length (sols st))"
    and "sol_x (sols st' ! b) = sol_x (sols st ! a)" and "sol_y (sols st' ! b) = sol_y (sols st ! a)"
    and "map fst (sol_data (sols st' ! b)) = map fst (sol_data (sols st ! a))"
    and "\<forall>i < length (sol_data (sols st ! a)).
          snd (sol_data (sols st' ! b) ! i) < length (cells st')
          \<and> cells st' ! snd (sol_data (sols st' ! b) ! i) = cells st ! snd (sol_data (sols st ! a) ! i)
          \<and> (if immutable (cells st ! snd (sol_data (sols st ! a) ! i))
              then snd (sol_data (sols st' ! b) ! i) = snd (sol_data (sols st ! a) ! i)
              else length (cells st) \<le> snd (sol_data (sols st' ! b) ! i))"
proof -
  obtain d st1 where d: "deepcopy_data [] (sol_data (sols st ! a)) st = (d, st1)"
    by (metis prod.exhaust)
  from dc d have n: "new_solution ((sols st ! a)\<lparr>sol_data := d\<rparr>) st1 = (b, st')"
    by (simp add: deepcopy_solution_def Let_def)
  from deepcopy_data_sols [OF d] have s1: "sols st1 = sols st" .
  from deepcopy_data_copies [OF d _ wf, of ] 
  have c: "map fst d = map fst (sol_data (sols st ! a))"
    "\<forall>i < length (sol_data (sols st ! a)).
        snd (d ! i) < length (cells st1)
        \<and> cells st1 ! snd (d ! i) = cells st ! snd (sol_data (sols st ! a) ! i)
        \<and> (if immutable (cells st ! snd (sol_data (sols st ! a) ! i))
            then snd (d ! i) = snd (sol_data (sols st ! a) ! i)
            else length (cells st) \<le> snd (d ! i))"
    by simp_all
  from n s1 have e: "b = length (sols st)" "sols st' = sols st @ [(sols st ! a)\<lparr>sol_data := d\<rparr>]"
    "cells st' = cells st1"
    by (auto simp: new_solution_def)
  from e show "b = length (sols st)" "length (sols st') = Suc (length (sols st))"
    "sol_x (sols st' ! b) = sol_x (sols st ! a)" "sol_y (sols st' ! b) = sol_y (sols st ! a)"
    by simp_all
  from e c(1) show "map fst (sol_data (sols st' ! b)) = map fst (sol_data (sols st ! a))"
    by simp
  from e have "sol_data (sols st' ! b) = d" by simp
  with c(2) e(3) show "\<forall>i < length (sol_data (sols st ! a)).
          snd (sol_data (sols st' ! b) ! i) < length (cells st')
          \<and> cells st' ! snd (sol_data (sols st' ! b) ! i) = cells st ! snd (sol_data (sols st ! a) ! i)
          \<and> (if immutable (cells st ! snd (sol_data (sols st ! a) ! i))
              then snd (sol_data (sols st' ! b) ! i) = snd (sol_data (sols st ! a) ! i)
              else length (cells st) \<le> snd (sol_data (sols st' ! b) ! i))"
    by (simp only:)
qed

lemma crossover_result:
  "crossover ext ga g1 g2 st = (gs, st') \<Longrightarrow> st' = st\<lparr>rng := rng st'\<rparr>"
  by (auto simp: crossover_def split: prod.splits)

text \<open>
  Claim C8. Let the two transformed parents be allocated solutions whose payload entries
  are allocated cells, and let lines 254 to 266 of \<^verbatim>\<open>get_mutants\<close> return.

  In the crossover branch there is a transmitter \<open>t\<close>, one of the two transformed parents,
  whose fitness is at most the fitness of either parent, and which is the first parent
  unless the second is strictly less: the lesser of the two by the order of the solutions.
  Each child is a new object and holds, under every key of \<^verbatim>\<open>keys_data_transmit\<close>, a deep
  copy of what \<open>t\<close> holds under that key: an object with the same contents, newly allocated
  when the value is mutable, and the transmitter's own object when the value is immutable
  (a string, a number, a tuple of such), which is what \<^verbatim>\<open>copy.deepcopy\<close> returns for it.

  In the other branch the two children are new objects with the genes and the fitness of
  the first and of the second transformed parent, and key by key a deep copy, in the same
  sense, of the parent's payload: copies, not references to the parents.
\<close>

theorem offspring_copies:
  fixes ext :: "('f::linorder, 'r) external"
  assumes ret: "offspring ext ga p1 p2 st = Inr (children, st')"
    and p1: "p1 < length (sols st)" and p2: "p2 < length (sols st)"
    and wf1: "\<forall>c \<in> snd ` set (sol_data (sols st ! p1)). c < length (cells st)"
    and wf2: "\<forall>c \<in> snd ` set (sol_data (sols st ! p2)). c < length (cells st)"
  shows "(fst (rng_random ext (rng st)) \<le> self_crossover_rate ga \<longrightarrow>
           (\<exists>t. (t = p1 \<or> t = p2)
              \<and> sol_y (sols st ! t) \<le> sol_y (sols st ! p1)
              \<and> sol_y (sols st ! t) \<le> sol_y (sols st ! p2)
              \<and> (sol_y (sols st ! p1) \<le> sol_y (sols st ! p2) \<longrightarrow> t = p1)
              \<and> length children = 2
              \<and> (\<forall>child \<in> set children. length (sols st) \<le> child
                   \<and> (\<forall>key \<in> set (self_keys_data_transmit ga). \<exists>c0 c'.
                         map_of (sol_data (sols st ! t)) key = Some c0
                         \<and> map_of (sol_data (sols st' ! child)) key = Some c'
                         \<and> cells st' ! c' = cells st ! c0
                         \<and> (if immutable (cells st ! c0) then c' = c0
                             else length (cells st) \<le> c')))))
       \<and> (\<not> fst (rng_random ext (rng st)) \<le> self_crossover_rate ga \<longrightarrow>
           (\<exists>child1 child2. children = [child1, child2]
              \<and> (\<forall>(child, p) \<in> {(child1, p1), (child2, p2)}.
                    length (sols st) \<le> child
                    \<and> sol_x (sols st' ! child) = sol_x (sols st ! p)
                    \<and> sol_y (sols st' ! child) = sol_y (sols st ! p)
                    \<and> map fst (sol_data (sols st' ! child)) = map fst (sol_data (sols st ! p))
                    \<and> (\<forall>i < length (sol_data (sols st ! p)).
                          cells st' ! snd (sol_data (sols st' ! child) ! i)
                            = cells st ! snd (sol_data (sols st ! p) ! i)
                          \<and> (if immutable (cells st ! snd (sol_data (sols st ! p) ! i))
                              then snd (sol_data (sols st' ! child) ! i)
                                     = snd (sol_data (sols st ! p) ! i)
                              else length (cells st) \<le> snd (sol_data (sols st' ! child) ! i))))))"
proof -
  obtain u r where u: "rng_random ext (rng st) = (u, r)" by (metis prod.exhaust)
  let ?st0 = "st\<lparr>rng := r\<rparr>"
  show ?thesis
  proof (cases "u \<le> self_crossover_rate ga")
    case True
    obtain g1 g2 st1 where c: "crossover ext ga (sol_x (sols ?st0 ! p1)) (sol_x (sols ?st0 ! p2)) ?st0
        = ((g1, g2), st1)"
      by (metis prod.exhaust)
    from c have s1: "sols st1 = sols st" "cells st1 = cells st"
      by (auto simp: crossover_def split: prod.splits)
    let ?t = "min_solution st p1 p2"
    from s1 have t_eq: "min_solution st1 p1 p2 = ?t" by (simp add: min_solution_def)
    have lesser: "?t = p1 \<or> ?t = p2"
      "sol_y (sols st ! ?t) \<le> sol_y (sols st ! p1)"
      "sol_y (sols st ! ?t) \<le> sol_y (sols st ! p2)"
      "sol_y (sols st ! p1) \<le> sol_y (sols st ! p2) \<longrightarrow> ?t = p1"
      by (auto simp: min_solution_def)
    from p1 p2 have t: "?t < length (sols st)" by (simp add: min_solution_def)
    from wf1 wf2 have wft: "\<forall>c \<in> snd ` set (sol_data (sols st ! ?t)). c < length (cells st)"
      by (simp add: min_solution_def)
    from ret u True c t_eq obtain c1 st2 c2 where
      m1: "make_child ext ga ?t g1 st1 = Inr (c1, st2)" and
      m2: "make_child ext ga ?t g2 st2 = Inr (c2, st')" and
      ch: "children = [c1, c2]"
      by (auto simp: offspring_def Let_def split: sum.splits)
    from make_child_result [OF m1] s1
    have r1: "c1 = length (sols st)" "extends st1 st2" "length (sols st2) = Suc (length (sols st))"
      by simp_all
    from make_child_result [OF m2] r1
    have r2: "c2 = Suc (length (sols st))" "extends st2 st'" by simp_all
    have t1: "?t < length (sols st1)" using t s1 by simp
    have wft1: "\<forall>c \<in> snd ` set (sol_data (sols st1 ! ?t)). c < length (cells st1)"
      using wft s1 by simp
    from make_child_copies [OF m1 t1 wft1, unfolded s1]
    have k1: "\<forall>key \<in> set (self_keys_data_transmit ga). \<exists>c0 c'.
            map_of (sol_data (sols st ! ?t)) key = Some c0
            \<and> map_of (sol_data (sols st2 ! c1)) key = Some c'
            \<and> c' < length (cells st2)
            \<and> cells st2 ! c' = cells st ! c0
            \<and> (if immutable (cells st ! c0) then c' = c0 else length (cells st) \<le> c')" .
    have t2: "?t < length (sols st2)" using t r1 by simp
    have same2: "sols st2 ! ?t = sols st ! ?t"
      using extends_sols [OF r1(2) t1] s1 by simp
    have grow2: "length (cells st) \<le> length (cells st2)"
      using r1(2) s1 by (simp add: extends_def)
    have keep2: "\<And>c. c < length (cells st) \<Longrightarrow> cells st2 ! c = cells st ! c"
      using r1(2) s1 by (simp add: extends_def)
    have wft2: "\<forall>c \<in> snd ` set (sol_data (sols st2 ! ?t)). c < length (cells st2)"
      using wft same2 grow2 by fastforce
    from make_child_copies [OF m2 t2 wft2, unfolded same2]
    have k2': "\<forall>key \<in> set (self_keys_data_transmit ga). \<exists>c0 c'.
            map_of (sol_data (sols st ! ?t)) key = Some c0
            \<and> map_of (sol_data (sols st' ! c2)) key = Some c'
            \<and> c' < length (cells st')
            \<and> cells st' ! c' = cells st2 ! c0
            \<and> (if immutable (cells st2 ! c0) then c' = c0 else length (cells st2) \<le> c')" .
    have kc1: "\<exists>c0 c'. map_of (sol_data (sols st ! ?t)) key = Some c0
            \<and> map_of (sol_data (sols st' ! c1)) key = Some c'
            \<and> cells st' ! c' = cells st ! c0
            \<and> (if immutable (cells st ! c0) then c' = c0 else length (cells st) \<le> c')"
      if key: "key \<in> set (self_keys_data_transmit ga)" for key
    proof -
      from k1 key obtain c0 c' where a:
        "map_of (sol_data (sols st ! ?t)) key = Some c0"
        "map_of (sol_data (sols st2 ! c1)) key = Some c'"
        "c' < length (cells st2)"
        "cells st2 ! c' = cells st ! c0"
        "if immutable (cells st ! c0) then c' = c0 else length (cells st) \<le> c'" by blast
      from r1 have "c1 < length (sols st2)" by simp
      from extends_sols [OF r2(2) this] extends_cells [OF r2(2) a(3)] a show ?thesis by simp
    qed
    have kc2: "\<exists>c0 c'. map_of (sol_data (sols st ! ?t)) key = Some c0
            \<and> map_of (sol_data (sols st' ! c2)) key = Some c'
            \<and> cells st' ! c' = cells st ! c0
            \<and> (if immutable (cells st ! c0) then c' = c0 else length (cells st) \<le> c')"
      if key: "key \<in> set (self_keys_data_transmit ga)" for key
    proof -
      from k2' key obtain c0 c' where a:
        "map_of (sol_data (sols st ! ?t)) key = Some c0"
        "map_of (sol_data (sols st' ! c2)) key = Some c'"
        "cells st' ! c' = cells st2 ! c0"
        "if immutable (cells st2 ! c0) then c' = c0 else length (cells st2) \<le> c'" by blast
      from a(1) have "c0 \<in> snd ` set (sol_data (sols st ! ?t))"
        by (metis image_eqI map_of_SomeD snd_conv)
      with wft have "c0 < length (cells st)" by blast
      from keep2 [OF this] a(3,4) grow2
      have "cells st' ! c' = cells st ! c0"
        "if immutable (cells st ! c0) then c' = c0 else length (cells st) \<le> c'"
        by (simp_all split: if_splits)
      with a(1,2) show ?thesis by blast
    qed
    have all: "\<forall>child \<in> set children. length (sols st) \<le> child
                   \<and> (\<forall>key \<in> set (self_keys_data_transmit ga). \<exists>c0 c'.
                         map_of (sol_data (sols st ! ?t)) key = Some c0
                         \<and> map_of (sol_data (sols st' ! child)) key = Some c'
                         \<and> cells st' ! c' = cells st ! c0
                         \<and> (if immutable (cells st ! c0) then c' = c0
                             else length (cells st) \<le> c'))"
      using ch r1(1) r2(1) kc1 kc2 by simp
    from ch have "length children = 2" by simp
    with lesser all have "\<exists>t. (t = p1 \<or> t = p2)
              \<and> sol_y (sols st ! t) \<le> sol_y (sols st ! p1)
              \<and> sol_y (sols st ! t) \<le> sol_y (sols st ! p2)
              \<and> (sol_y (sols st ! p1) \<le> sol_y (sols st ! p2) \<longrightarrow> t = p1)
              \<and> length children = 2
              \<and> (\<forall>child \<in> set children. length (sols st) \<le> child
                   \<and> (\<forall>key \<in> set (self_keys_data_transmit ga). \<exists>c0 c'.
                         map_of (sol_data (sols st ! t)) key = Some c0
                         \<and> map_of (sol_data (sols st' ! child)) key = Some c'
                         \<and> cells st' ! c' = cells st ! c0
                         \<and> (if immutable (cells st ! c0) then c' = c0
                             else length (cells st) \<le> c')))"
      by (intro exI [of _ ?t] conjI)
    with True u show ?thesis by simp
  next
    case False
    obtain c1 st1 where d1: "deepcopy_solution p1 ?st0 = (c1, st1)" by (metis prod.exhaust)
    obtain c2 st2 where d2: "deepcopy_solution p2 st1 = (c2, st2)" by (metis prod.exhaust)
    from ret u False d1 d2 have ch: "children = [c1, c2]" and st': "st' = st2"
      by (auto simp: offspring_def Let_def)
    have wf1': "\<forall>c \<in> snd ` set (sol_data (sols ?st0 ! p1)). c < length (cells ?st0)"
      using wf1 by simp
    have z: "sols ?st0 = sols st" "cells ?st0 = cells st" by simp_all
    note dc1 = deepcopy_solution_copies [OF d1 wf1', unfolded z]
    have a: "c1 = length (sols st)" "length (sols st1) = Suc (length (sols st))"
      "sol_x (sols st1 ! c1) = sol_x (sols st ! p1)" "sol_y (sols st1 ! c1) = sol_y (sols st ! p1)"
      "map fst (sol_data (sols st1 ! c1)) = map fst (sol_data (sols st ! p1))"
      "\<forall>i < length (sol_data (sols st ! p1)).
          snd (sol_data (sols st1 ! c1) ! i) < length (cells st1)
          \<and> cells st1 ! snd (sol_data (sols st1 ! c1) ! i) = cells st ! snd (sol_data (sols st ! p1) ! i)
          \<and> (if immutable (cells st ! snd (sol_data (sols st ! p1) ! i))
              then snd (sol_data (sols st1 ! c1) ! i) = snd (sol_data (sols st ! p1) ! i)
              else length (cells st) \<le> snd (sol_data (sols st1 ! c1) ! i))"
      by (rule dc1)+
    from deepcopy_solution_result [OF d1] have e01: "extends ?st0 st1" by simp
    then have same_p2: "sols st1 ! p2 = sols st ! p2" and grow: "length (cells st) \<le> length (cells st1)"
      and keep: "\<And>c. c < length (cells st) \<Longrightarrow> cells st1 ! c = cells st ! c"
      using p2 by (simp_all add: extends_def)
    have wf2': "\<forall>c \<in> snd ` set (sol_data (sols st1 ! p2)). c < length (cells st1)"
      using wf2 same_p2 grow by fastforce
    note dc2 = deepcopy_solution_copies [OF d2 wf2', unfolded same_p2 a(2)]
    have b: "c2 = Suc (length (sols st))"
      "sol_x (sols st2 ! c2) = sol_x (sols st ! p2)" "sol_y (sols st2 ! c2) = sol_y (sols st ! p2)"
      "map fst (sol_data (sols st2 ! c2)) = map fst (sol_data (sols st ! p2))"
      "\<forall>i < length (sol_data (sols st ! p2)).
          snd (sol_data (sols st2 ! c2) ! i) < length (cells st2)
          \<and> cells st2 ! snd (sol_data (sols st2 ! c2) ! i) = cells st1 ! snd (sol_data (sols st ! p2) ! i)
          \<and> (if immutable (cells st1 ! snd (sol_data (sols st ! p2) ! i))
              then snd (sol_data (sols st2 ! c2) ! i) = snd (sol_data (sols st ! p2) ! i)
              else length (cells st1) \<le> snd (sol_data (sols st2 ! c2) ! i))"
      by (rule dc2(1) dc2(3) dc2(4) dc2(5) dc2(6))+
    from deepcopy_solution_result [OF d2] have e12: "extends st1 st2" by simp
    from a(1,2) have "c1 < length (sols st1)" by simp
    from extends_sols [OF e12 this] have same_c1: "sols st2 ! c1 = sols st1 ! c1" .
    have copy1: "\<forall>i < length (sol_data (sols st ! p1)).
          cells st2 ! snd (sol_data (sols st2 ! c1) ! i) = cells st ! snd (sol_data (sols st ! p1) ! i)
          \<and> (if immutable (cells st ! snd (sol_data (sols st ! p1) ! i))
              then snd (sol_data (sols st2 ! c1) ! i) = snd (sol_data (sols st ! p1) ! i)
              else length (cells st) \<le> snd (sol_data (sols st2 ! c1) ! i))"
      using a(6) same_c1 extends_cells [OF e12] by simp
    have copy2: "\<forall>i < length (sol_data (sols st ! p2)).
          cells st2 ! snd (sol_data (sols st2 ! c2) ! i) = cells st ! snd (sol_data (sols st ! p2) ! i)
          \<and> (if immutable (cells st ! snd (sol_data (sols st ! p2) ! i))
              then snd (sol_data (sols st2 ! c2) ! i) = snd (sol_data (sols st ! p2) ! i)
              else length (cells st) \<le> snd (sol_data (sols st2 ! c2) ! i))"
    proof (intro allI impI)
      fix i assume i: "i < length (sol_data (sols st ! p2))"
      then have "snd (sol_data (sols st ! p2) ! i) \<in> snd ` set (sol_data (sols st ! p2))" by simp
      with wf2 have "snd (sol_data (sols st ! p2) ! i) < length (cells st)" by blast
      from keep [OF this] b(5) i grow
      show "cells st2 ! snd (sol_data (sols st2 ! c2) ! i) = cells st ! snd (sol_data (sols st ! p2) ! i)
          \<and> (if immutable (cells st ! snd (sol_data (sols st ! p2) ! i))
              then snd (sol_data (sols st2 ! c2) ! i) = snd (sol_data (sols st ! p2) ! i)
              else length (cells st) \<le> snd (sol_data (sols st2 ! c2) ! i))"
        by (auto split: if_splits)
    qed
    have new: "length (sols st) \<le> c1" "length (sols st) \<le> c2" using a(1) b(1) by simp_all
    have first: "sol_x (sols st2 ! c1) = sol_x (sols st ! p1)"
      "sol_y (sols st2 ! c1) = sol_y (sols st ! p1)"
      "map fst (sol_data (sols st2 ! c1)) = map fst (sol_data (sols st ! p1))"
      using a(3,4,5) same_c1 by simp_all
    from False u ch new first b(2-4) copy1 copy2 show ?thesis
      unfolding st' by (simp split del: if_split, blast)
  qed
qed

theorem offspring_copies_witness:
  "(\<exists>child1 child2 st'. offspring ext0 ga0 1 0 st0 = Inr ([child1, child2], st')
       \<and> 3 \<le> child1 \<and> 3 \<le> child2
       \<and> (\<exists>c'. map_of (sol_data (sols st' ! child1)) ''tag'' = Some c' \<and> 3 \<le> c'
             \<and> cells st' ! c' = DList [DStr ''a''])
       \<and> (\<exists>c'. map_of (sol_data (sols st' ! child2)) ''tag'' = Some c' \<and> 3 \<le> c'
             \<and> cells st' ! c' = DList [DStr ''a'']))
   \<and> (\<exists>child1 child2 st'. offspring ext0 ga0 2 1 st0 = Inr ([child1, child2], st')
       \<and> 3 \<le> child1 \<and> 3 \<le> child2
       \<and> map_of (sol_data (sols st' ! child1)) ''tag'' = Some 1
       \<and> map_of (sol_data (sols st' ! child2)) ''tag'' = Some 1)
   \<and> (\<exists>child1 child2 st'. offspring ext0 ga0 1 0 (st0\<lparr>rng := 3\<rparr>) = Inr ([child1, child2], st')
       \<and> 3 \<le> child1 \<and> 3 \<le> child2
       \<and> sol_x (sols st' ! child1) = [2, 3] \<and> sol_y (sols st' ! child2) = Some 3
       \<and> snd (sol_data (sols st' ! child1) ! 0) = 1
       \<and> 3 \<le> snd (sol_data (sols st' ! child2) ! 0)
       \<and> cells st' ! snd (sol_data (sols st' ! child2) ! 0) = DList [DStr ''a''])"
proof -
  have cross: "fst (rng_random ext0 (rng st0)) \<le> self_crossover_rate ga0"
    by (simp add: ext0_def st0_def ga0_def)
  have "case offspring ext0 ga0 1 0 st0 of Inl e \<Rightarrow> False | Inr r \<Rightarrow> True"
    by code_simp
  then obtain children st' where ret: "offspring ext0 ga0 1 0 st0 = Inr (children, st')"
    by (auto split: sum.splits)
  from offspring_result [OF ret] obtain child1 child2 where ch: "children = [child1, child2]"
    by (auto simp: length_Suc_conv numeral_2_eq_2)
  from offspring_copies [OF ret] cross ch
  have "3 \<le> child1 \<and> 3 \<le> child2
       \<and> (\<exists>c'. map_of (sol_data (sols st' ! child1)) ''tag'' = Some c' \<and> 3 \<le> c'
             \<and> cells st' ! c' = DList [DStr ''a''])
       \<and> (\<exists>c'. map_of (sol_data (sols st' ! child2)) ''tag'' = Some c' \<and> 3 \<le> c'
             \<and> cells st' ! c' = DList [DStr ''a''])"
    by (auto simp: st0_def ga0_def numeral_3_eq_3)
  with ret ch have first: "\<exists>child1 child2 st'. offspring ext0 ga0 1 0 st0 = Inr ([child1, child2], st')
       \<and> 3 \<le> child1 \<and> 3 \<le> child2
       \<and> (\<exists>c'. map_of (sol_data (sols st' ! child1)) ''tag'' = Some c' \<and> 3 \<le> c'
             \<and> cells st' ! c' = DList [DStr ''a''])
       \<and> (\<exists>c'. map_of (sol_data (sols st' ! child2)) ''tag'' = Some c' \<and> 3 \<le> c'
             \<and> cells st' ! c' = DList [DStr ''a''])" by blast
  have "case offspring ext0 ga0 2 1 st0 of Inl e \<Rightarrow> False | Inr r \<Rightarrow> True"
    by code_simp
  then obtain children1 st1 where ret1: "offspring ext0 ga0 2 1 st0 = Inr (children1, st1)"
    by (auto split: sum.splits)
  from offspring_result [OF ret1] obtain child3 child4 where ch1: "children1 = [child3, child4]"
    by (auto simp: length_Suc_conv numeral_2_eq_2)
  from offspring_copies [OF ret1] cross ch1
  have "3 \<le> child3 \<and> 3 \<le> child4
       \<and> map_of (sol_data (sols st1 ! child3)) ''tag'' = Some 1
       \<and> map_of (sol_data (sols st1 ! child4)) ''tag'' = Some 1"
    by (auto simp: st0_def ga0_def numeral_3_eq_3)
  with ret1 ch1 have second: "\<exists>child1 child2 st'. offspring ext0 ga0 2 1 st0 = Inr ([child1, child2], st')
       \<and> 3 \<le> child1 \<and> 3 \<le> child2
       \<and> map_of (sol_data (sols st' ! child1)) ''tag'' = Some 1
       \<and> map_of (sol_data (sols st' ! child2)) ''tag'' = Some 1" by blast
  have "case offspring ext0 ga0 1 0 (st0\<lparr>rng := 3\<rparr>) of Inl e \<Rightarrow> False | Inr r \<Rightarrow> True"
    by code_simp
  then obtain children2 st2 where
    ret2: "offspring ext0 ga0 1 0 (st0\<lparr>rng := 3\<rparr>) = Inr (children2, st2)"
    by (auto split: sum.splits)
  have nocross: "\<not> fst (rng_random ext0 (rng (st0\<lparr>rng := 3\<rparr>))) \<le> self_crossover_rate ga0"
    by (simp add: ext0_def st0_def ga0_def)
  from offspring_copies [OF ret2] nocross
  have "\<exists>child1 child2. children2 = [child1, child2]
       \<and> 3 \<le> child1 \<and> 3 \<le> child2
       \<and> sol_x (sols st2 ! child1) = [2, 3] \<and> sol_y (sols st2 ! child2) = Some 3
       \<and> snd (sol_data (sols st2 ! child1) ! 0) = 1
       \<and> 3 \<le> snd (sol_data (sols st2 ! child2) ! 0)
       \<and> cells st2 ! snd (sol_data (sols st2 ! child2) ! 0) = DList [DStr ''a'']"
    by (auto simp: st0_def ga0_def numeral_3_eq_3)
  with ret2 have third: "\<exists>child1 child2 st'.
       offspring ext0 ga0 1 0 (st0\<lparr>rng := 3\<rparr>) = Inr ([child1, child2], st')
       \<and> 3 \<le> child1 \<and> 3 \<le> child2
       \<and> sol_x (sols st' ! child1) = [2, 3] \<and> sol_y (sols st' ! child2) = Some 3
       \<and> snd (sol_data (sols st' ! child1) ! 0) = 1
       \<and> 3 \<le> snd (sol_data (sols st' ! child2) ! 0)
       \<and> cells st' ! snd (sol_data (sols st' ! child2) ! 0) = DList [DStr ''a'']"
    by blast
  from first second third show ?thesis by blast
qed

end
